theory Spec2Isabelle
  imports Main "HOL-Library.Word" "HOL-Library.Monad_Syntax"
begin

unbundle bit_operations_syntax

section \<open>Machine integers\<close>

type_synonym u16 = "16 word"
type_synonym u32 = "32 word"
type_synonym u64 = "64 word"

text \<open>A C \<open>int\<close> / \<open>int32_t\<close> is kept as its 32-bit pattern; \<open>sint\<close> reads its value.\<close>

type_synonym s32 = "32 word"

section \<open>A64 instruction selection (utility\_arm64.cc)\<close>

subsection \<open>Bit counting\<close>

text \<open>
  The bits of a word, least significant first. The compiler builtins
  \<open>__builtin_clz\<close>, \<open>__builtin_ctz\<close> (and their \<open>l\<close> variants on a 64-bit
  \<open>unsigned long\<close>) are undefined on the argument 0: that is the value \<open>None\<close>.
\<close>

definition bits_of :: "'a::len word \<Rightarrow> bool list" where
  "bits_of w = map (bit w) [0..<LENGTH('a)]"

definition leading_zeros :: "bool list \<Rightarrow> nat" where
  "leading_zeros bs = length (takeWhile Not (rev bs))"

definition trailing_zeros :: "bool list \<Rightarrow> nat" where
  "trailing_zeros bs = length (takeWhile Not bs)"

definition set_bit_count :: "bool list \<Rightarrow> nat" where
  "set_bit_count bs = length (filter id bs)"

definition builtin_clz :: "'a::len word \<Rightarrow> nat option" where
  "builtin_clz x = (if x = 0 then None else Some (leading_zeros (bits_of x)))"

definition builtin_ctz :: "'a::len word \<Rightarrow> nat option" where
  "builtin_ctz x = (if x = 0 then None else Some (trailing_zeros (bits_of x)))"

definition builtin_popcount :: "'a::len word \<Rightarrow> nat" where
  "builtin_popcount x = set_bit_count (bits_of x)"

definition CountLeadingZeros :: "bool \<Rightarrow> u64 \<Rightarrow> nat option" where
  "CountLeadingZeros is_wide val =
     (if is_wide then builtin_clz val else builtin_clz (ucast val :: u32))"

definition CountTrailingZeros :: "bool \<Rightarrow> u64 \<Rightarrow> nat option" where
  "CountTrailingZeros is_wide val =
     (if is_wide then builtin_ctz val else builtin_ctz (ucast val :: u32))"

definition CountSetBits :: "bool \<Rightarrow> u64 \<Rightarrow> nat" where
  "CountSetBits is_wide val =
     (if is_wide then builtin_popcount val else builtin_popcount (ucast val :: u32))"

subsection \<open>Logical immediates\<close>

text \<open>
  The \<open>for (;;)\<close> loop of \<open>EncodeLogicalImmediate\<close>. Its state is \<open>width\<close>,
  \<open>set_bits\<close> and \<open>imm_s_fixed\<close>; the four run lengths are computed once before
  the loop. \<open>Some (Some (n, imm_r, imm_s))\<close> is a \<open>break\<close> with these fields,
  \<open>Some None\<close> is the \<open>return -1\<close> of step 6, and \<open>None\<close> is a loop that
  does not end. \<open>imm_s_fixed\<close> is a signed \<open>int\<close>, shifted arithmetically.
\<close>

partial_function (option) encode_loop ::
  "u64 \<Rightarrow> u32 \<Rightarrow> u32 \<Rightarrow> u32 \<Rightarrow> u32 \<Rightarrow> u32 \<Rightarrow> u32 \<Rightarrow> s32 \<Rightarrow> (u32 \<times> u32 \<times> u32) option option"
where
  "encode_loop val lead_zero lead_one trail_zero trail_one width set_bits imm_s_fixed =
     (if width = 2 then Some (Some (0, ucast ((val AND 3) - 1), 0x3C))
      else
        let n = (if width = 64 then 1 else 0);
            imm_s = (imm_s_fixed OR (set_bits - 1)) AND 0x3f;
            imm_r = (if lead_zero + set_bits = width then 0
                     else if lead_zero > 0 then width - trail_zero else lead_one)
        in
          if lead_zero + trail_zero + set_bits = width then Some (Some (n, imm_r, imm_s))
          else if lead_one + trail_one + (width - set_bits) = width
          then Some (Some (n, imm_r, imm_s))
          else
            let mask = push_bit (unat (drop_bit 1 width)) (1 :: u64) - 1 in
            if val AND mask = drop_bit (unat (drop_bit 1 width)) val AND mask
            then encode_loop val lead_zero lead_one trail_zero trail_one
                   (drop_bit 1 width) (drop_bit 1 set_bits) (signed_drop_bit 1 imm_s_fixed)
            else Some None)"

declare encode_loop.simps [code]

text \<open>
  \<open>EncodeLogicalImmediate(is_wide, value)\<close>: \<open>Some r\<close> is the returned \<open>int\<close>
  (\<open>-1\<close> for failure), \<open>None\<close> is undefined behaviour of a builtin (or a loop that
  does not end).
\<close>

definition EncodeLogicalImmediate :: "bool \<Rightarrow> u64 \<Rightarrow> int option" where
  "EncodeLogicalImmediate is_wide val =
     (if val = 0 \<or> val = NOT 0 \<or> (\<not> is_wide \<and> (ucast val :: u32) = NOT 0) then Some (- 1)
      else do {
        lead_zero \<leftarrow> CountLeadingZeros is_wide val;
        lead_one \<leftarrow> CountLeadingZeros is_wide (NOT val);
        trail_zero \<leftarrow> CountTrailingZeros is_wide val;
        trail_one \<leftarrow> CountTrailingZeros is_wide (NOT val);
        let set_bits = CountSetBits is_wide val;
        r \<leftarrow> encode_loop val (of_nat lead_zero) (of_nat lead_one) (of_nat trail_zero)
               (of_nat trail_one) (if is_wide then 64 else 32) (of_nat set_bits)
               (if is_wide then - 128 else - 64);
        (case r of
           None \<Rightarrow> Some (- 1)
         | Some (n, imm_r, imm_s) \<Rightarrow>
             Some (sint (push_bit 12 n OR push_bit 6 imm_r OR imm_s)))
      })"

text \<open>
  Modelled from the spec: \<open>DecodeLogicalImmediate\<close> is not in the sources. It is
  the decoder of the table in the comment of \<open>EncodeLogicalImmediate\<close>:

  \<^verbatim>\<open>N   imms    immr    size        S             R\<close>
  \<^verbatim>\<open>1  ssssss  rrrrrr    64    UInt(ssssss)  UInt(rrrrrr)\<close>
  \<^verbatim>\<open>0  0sssss  xrrrrr    32    UInt(sssss)   UInt(rrrrr)\<close>
  \<^verbatim>\<open>0  10ssss  xxrrrr    16    UInt(ssss)    UInt(rrrr)\<close>
  \<^verbatim>\<open>0  110sss  xxxrrr     8    UInt(sss)     UInt(rrr)\<close>
  \<^verbatim>\<open>0  1110ss  xxxxrr     4    UInt(ss)      UInt(rr)\<close>
  \<^verbatim>\<open>0  11110s  xxxxxr     2    UInt(s)       UInt(r)\<close>

  (s bits must not be all set). A pattern of \<open>size\<close> bits has its least significant
  \<open>S + 1\<close> bits set; it is rotated right by \<open>R\<close> and repeated across the 32-bit or
  64-bit register. Bit lists are least significant bit first, so a rotation of the word
  to the right is \<open>rotate\<close> on the list.
\<close>

definition element_size :: "nat \<Rightarrow> nat \<Rightarrow> nat option" where
  "element_size n imms =
     (if n = 1 then Some 64
      else if imms < 32 then Some 32
      else if imms < 48 then Some 16
      else if imms < 56 then Some 8
      else if imms < 60 then Some 4
      else if imms < 62 then Some 2
      else None)"

definition decode_pattern :: "nat \<Rightarrow> nat \<Rightarrow> nat \<Rightarrow> nat \<Rightarrow> bool list option" where
  "decode_pattern reg_size n immr imms =
     (case element_size n imms of
        None \<Rightarrow> None
      | Some esize \<Rightarrow>
          let S = imms mod esize; R = immr mod esize in
          if S + 1 = esize \<or> reg_size < esize then None
          else Some (concat (replicate (reg_size div esize)
                  (rotate R (replicate (S + 1) True @ replicate (esize - (S + 1)) False)))))"

definition DecodeLogicalImmediate :: "bool \<Rightarrow> int \<Rightarrow> u64 option" where
  "DecodeLogicalImmediate is_wide enc =
     (if enc < 0 then None
      else
        let e = nat enc in
        map_option (horner_sum of_bool 2)
          (decode_pattern (if is_wide then 64 else 32)
             ((e div 4096) mod 2) ((e div 64) mod 64) (e mod 64)))"

subsection \<open>Floating-point immediates\<close>

text \<open>\<open>EncodeImmSingle\<close> and \<open>EncodeImmDouble\<close>: the 8-bit code, or -1.\<close>

definition EncodeImmSingle :: "u32 \<Rightarrow> int" where
  "EncodeImmSingle bits =
     (if bits AND 0x0007ffff \<noteq> 0 then - 1
      else
        let b_pattern = drop_bit 16 bits AND 0x3e00 in
        if b_pattern \<noteq> 0 \<and> b_pattern \<noteq> 0x3e00 then - 1
        else if (bits XOR push_bit 1 bits) AND 0x40000000 = 0 then - 1
        else
          let bit7 = push_bit 7 (drop_bit 31 bits AND 1);
              bit6 = push_bit 6 (drop_bit 29 bits AND 1);
              bit5_to_0 = drop_bit 19 bits AND 0x3f
          in sint (bit7 OR bit6 OR bit5_to_0))"

definition EncodeImmDouble :: "u64 \<Rightarrow> int" where
  "EncodeImmDouble bits =
     (if bits AND 0xffffffffffff \<noteq> 0 then - 1
      else
        let b_pattern = (ucast (drop_bit 48 bits) :: u32) AND 0x3fc0 in
        if b_pattern \<noteq> 0 \<and> b_pattern \<noteq> 0x3fc0 then - 1
        else if (bits XOR push_bit 1 bits) AND 0x4000000000000000 = 0 then - 1
        else
          let bit7 = (ucast (push_bit 7 (drop_bit 63 bits AND 1)) :: u32);
              bit6 = (ucast (push_bit 6 (drop_bit 61 bits AND 1)) :: u32);
              bit5_to_0 = (ucast (drop_bit 48 bits AND 0x3f) :: u32)
          in sint (bit7 OR bit6 OR bit5_to_0))"

subsection \<open>Registers, opcodes and instruction records\<close>

text \<open>
  A \<open>RegStorage\<close> is a tagged register handle: the raw register number \<open>GetReg()\<close>
  and its class. \<open>IsDouble\<close> is a 64-bit floating-point register, \<open>IsSingle\<close> a
  32-bit one.
\<close>

record RegStorage =
  GetReg :: int
  IsFloat :: bool
  Is64Bit :: bool



text \<open>
  The constants of \<open>arm64_lir.h\<close> and the static register-class tests of
  \<open>RegStorage\<close> on raw register numbers are not part of the sources at hand; the
  functions below take them as a parameter.
\<close>

record A64Consts =
  rwzr :: int
  rwsp :: int
  rs_rA64_SP :: RegStorage
  RegIsSingle :: "int \<Rightarrow> bool"
  RegIsDouble :: "int \<Rightarrow> bool"
  RegIsFloat :: "int \<Rightarrow> bool"


text \<open>
  The opcodes used by the functions modelled here. \<open>WIDE(op)\<close> sets the 64-bit
  variant flag of an opcode; \<open>FWIDE\<close> is the same macro under the name used for
  floating-point opcodes.
\<close>

datatype ArmOpcode =
  kA64Brk1d
  | kA64Fmov2sw | kA64Fmov2Sx | kA64Fmov2fI | kA64Ldr2fp
  | kA64Mov2rr | kA64Mvn2rr | kA64Movn3rdM | kA64Movz3rdM | kA64Movk3rdM | kA64Orr3Rrl
  | kA64Ldr4fXxG | kA64Ldr4rXxG | kA64Ldrh4wXxd | kA64Ldrsh4rXxd | kA64Ldrb3wXx | kA64Ldrsb3rXx
  | kA64Str4fXxG | kA64Str4rXxG | kA64Strh4wXxd | kA64Strb3wXx
  | kA64Ldr3fXD | kA64Ldur3fXd | kA64Ldr3rXD | kA64Ldur3rXd
  | kA64Ldrh3wXF | kA64Ldrsh3rXF | kA64Ldrb3wXd | kA64Ldrsb3rXd
  | kA64Str3fXD | kA64Stur3fXd | kA64Str3rXD | kA64Stur3rXd
  | kA64Strh3wXF | kA64Strb3wXd
  | WIDE ArmOpcode

definition FWIDE :: "ArmOpcode \<Rightarrow> ArmOpcode" where
  "FWIDE op = WIDE op"

datatype literal = WordData s32 | WideData s32 s32

text \<open>
  A machine instruction record: opcode, operands, an optional reference to a
  literal-pool entry, and the two annotations the functions below set.
\<close>

record LIR =
  lir_opcode :: ArmOpcode
  lir_operands :: "int list"
  lir_target :: "literal option"
  mem_ref_literal :: bool
  dalvik_reg_access :: "(int \<times> bool \<times> bool) option"

text \<open>
  The state of the code generator the functions below touch: the instructions emitted
  so far, in order; the literal pool; and the pool of temporaries with their in-use flag.
  A function that returns \<open>LIR*\<close> returns the index of that record in \<open>lir_list\<close>.
\<close>

record cg_state =
  lir_list :: "LIR list"
  literal_list :: "literal list"
  temp_pool :: "(RegStorage \<times> bool) list"

definition RawLIR :: "ArmOpcode \<Rightarrow> int list \<Rightarrow> literal option \<Rightarrow> LIR" where
  "RawLIR op ops tgt =
     \<lparr>lir_opcode = op, lir_operands = ops, lir_target = tgt, mem_ref_literal = False,
      dalvik_reg_access = None\<rparr>"

definition AppendLIR :: "LIR \<Rightarrow> cg_state \<Rightarrow> nat \<times> cg_state" where
  "AppendLIR lir s = (length (lir_list s), s\<lparr>lir_list := lir_list s @ [lir]\<rparr>)"

text \<open>
  Modelled from the spec: \<open>NewLIR1\<close> .. \<open>NewLIR4\<close> of the shared code generator are
  not in the sources; each builds one instruction record from an opcode and its operand
  slots and appends it to the instruction stream.
\<close>

definition NewLIR2 :: "ArmOpcode \<Rightarrow> int \<Rightarrow> int \<Rightarrow> cg_state \<Rightarrow> nat \<times> cg_state" where
  "NewLIR2 op a b s = AppendLIR (RawLIR op [a, b] None) s"

definition NewLIR3 :: "ArmOpcode \<Rightarrow> int \<Rightarrow> int \<Rightarrow> int \<Rightarrow> cg_state \<Rightarrow> nat \<times> cg_state" where
  "NewLIR3 op a b c s = AppendLIR (RawLIR op [a, b, c] None) s"


text \<open>
  Modelled from the spec: the literal pool is deduplicated. \<open>ScanLiteralPool\<close> and
  \<open>ScanLiteralPoolWide\<close> find an entry holding the value, \<open>AddWordData\<close> and
  \<open>AddWideData\<close> add one; none of the four is in the sources.
\<close>

definition ScanLiteralPool :: "literal list \<Rightarrow> s32 \<Rightarrow> literal option" where
  "ScanLiteralPool pool v = (if WordData v \<in> set pool then Some (WordData v) else None)"

definition AddWordData :: "s32 \<Rightarrow> cg_state \<Rightarrow> literal \<times> cg_state" where
  "AddWordData v s = (WordData v, s\<lparr>literal_list := WordData v # literal_list s\<rparr>)"

definition ScanLiteralPoolWide :: "literal list \<Rightarrow> s32 \<Rightarrow> s32 \<Rightarrow> literal option" where
  "ScanLiteralPoolWide pool lo hi =
     (if WideData lo hi \<in> set pool then Some (WideData lo hi) else None)"

definition AddWideData :: "s32 \<Rightarrow> s32 \<Rightarrow> cg_state \<Rightarrow> literal \<times> cg_state" where
  "AddWideData lo hi s = (WideData lo hi, s\<lparr>literal_list := WideData lo hi # literal_list s\<rparr>)"

subsection \<open>Loading constants\<close>

text \<open>
  In the functions that follow, \<open>None\<close> is a failed \<open>DCHECK\<close> or \<open>LOG(FATAL)\<close>
  (or undefined behaviour inherited from \<open>EncodeLogicalImmediate\<close>).
\<close>

definition LoadFPConstantValue ::
  "A64Consts \<Rightarrow> int \<Rightarrow> s32 \<Rightarrow> cg_state \<Rightarrow> (nat \<times> cg_state) option" where
  "LoadFPConstantValue K r_dest val s =
     (if \<not> RegIsSingle K r_dest then None
      else if val = 0 then Some (NewLIR2 kA64Fmov2sw r_dest (rwzr K) s)
      else
        let encoded_imm = EncodeImmSingle val in
        if encoded_imm \<ge> 0 then Some (NewLIR2 kA64Fmov2fI r_dest encoded_imm s)
        else
          let (data_target, s1) =
                (case ScanLiteralPool (literal_list s) val of
                   Some t \<Rightarrow> (t, s)
                 | None \<Rightarrow> AddWordData val s);
              load_pc_rel = RawLIR kA64Ldr2fp [r_dest, 0, 0, 0, 0] (Some data_target)
          in Some (AppendLIR (load_pc_rel\<lparr>mem_ref_literal := True\<rparr>) s1))"

definition LoadFPConstantValueWide ::
  "A64Consts \<Rightarrow> int \<Rightarrow> u64 \<Rightarrow> cg_state \<Rightarrow> (nat \<times> cg_state) option" where
  "LoadFPConstantValueWide K r_dest val s =
     (if \<not> RegIsDouble K r_dest then None
      else if val = 0 then Some (NewLIR2 kA64Fmov2Sx r_dest (rwzr K) s)
      else
        let encoded_imm = EncodeImmDouble val in
        if encoded_imm \<ge> 0 then Some (NewLIR2 (FWIDE kA64Fmov2fI) r_dest encoded_imm s)
        else
          let val_lo = (ucast val :: s32);
              val_hi = (ucast (drop_bit 32 val) :: s32);
              (data_target, s1) =
                (case ScanLiteralPoolWide (literal_list s) val_lo val_hi of
                   Some t \<Rightarrow> (t, s)
                 | None \<Rightarrow> AddWideData val_lo val_hi s)
          in
            if \<not> RegIsFloat K r_dest then None
            else
              let load_pc_rel = RawLIR (FWIDE kA64Ldr2fp) [r_dest, 0, 0, 0, 0] (Some data_target)
              in Some (AppendLIR (load_pc_rel\<lparr>mem_ref_literal := True\<rparr>) s1))"

definition High16Bits :: "s32 \<Rightarrow> u16" where
  "High16Bits v = ucast (drop_bit 16 v)"

definition Low16Bits :: "s32 \<Rightarrow> u16" where
  "Low16Bits v = ucast v"

text \<open>
  \<open>LoadConstantNoClobber\<close>. The \<open>int\<close> argument of \<open>EncodeLogicalImmediate\<close>
  is converted to \<open>uint64_t\<close>, that is sign-extended. \<open>~useful_bits\<close> is taken on
  the \<open>uint16_t\<close> promoted to \<open>int\<close>.
\<close>

definition LoadConstantNoClobber ::
  "A64Consts \<Rightarrow> RegStorage \<Rightarrow> s32 \<Rightarrow> cg_state \<Rightarrow> (nat \<times> cg_state) option" where
  "LoadConstantNoClobber K r_dest val s =
     (if IsFloat r_dest then LoadFPConstantValue K (GetReg r_dest) val s
      else if GetReg r_dest = rwsp K \<or> GetReg r_dest = rwzr K then None
      else
        let high_bits = High16Bits val;
            low_bits = Low16Bits val;
            low_fast = (low_bits + 1 \<le> 1);
            high_fast = (high_bits + 1 \<le> 1)
        in
          if low_fast \<or> high_fast then
            if low_bits = high_bits then
              Some (NewLIR2 (if low_bits = 0 then kA64Mov2rr else kA64Mvn2rr)
                      (GetReg r_dest) (rwzr K) s)
            else
              let (shift, uniform_bits, useful_bits) =
                    (if high_fast then (0, high_bits, low_bits) else (1, low_bits, high_bits))
              in
                if uniform_bits \<noteq> 0 then
                  Some (NewLIR3 kA64Movn3rdM (GetReg r_dest)
                          (sint (NOT (ucast useful_bits :: s32))) shift s)
                else
                  Some (NewLIR3 kA64Movz3rdM (GetReg r_dest) (uint useful_bits) shift s)
          else
            (case EncodeLogicalImmediate False (scast val) of
               None \<Rightarrow> None
             | Some log_imm \<Rightarrow>
                 if log_imm \<ge> 0 then
                   Some (NewLIR3 kA64Orr3Rrl (GetReg r_dest) (rwzr K) log_imm s)
                 else
                   let (res, s1) = NewLIR3 kA64Movz3rdM (GetReg r_dest) (uint low_bits) 0 s;
                       (_, s2) = NewLIR3 kA64Movk3rdM (GetReg r_dest) (uint high_bits) 1 s1
                   in Some (res, s2)))"





subsection \<open>Memory operations\<close>









section \<open>Live intervals (ssa\_liveness\_analysis.h)\<close>

text \<open>
  A \<open>LiveRange\<close> is the half-open range \<open>[start, end)\<close> of lifetime positions
  (\<open>size_t\<close>; the code only compares them, so they are natural numbers). The chain
  \<open>first_range_\<close>, \<open>next_\<close>, ..., \<open>last_range_\<close> of an interval is the list of
  its ranges, front first; \<open>last_range_\<close> is the last element of the list throughout,
  and no range object is shared between two intervals: \<open>SplitAt\<close> leaves the ranges
  before the split in the interval and moves the rest to the new sibling.
\<close>

record LiveRange =
  GetStart :: nat
  GetEnd :: nat

text \<open>
  The constructor of \<open>LiveRange\<close> with its two \<open>DCHECK\<close>s; the result is the chain
  that starts with the new range. Throughout this section \<open>None\<close> is a failed
  \<open>DCHECK\<close>, a \<open>LOG(FATAL)\<close> or the dereference of a null pointer.
\<close>

definition NewLiveRange :: "nat \<Rightarrow> nat \<Rightarrow> LiveRange list \<Rightarrow> LiveRange list option" where
  "NewLiveRange start end' next =
     (if \<not> start < end' then None
      else
        (case next of
           [] \<Rightarrow> Some [\<lparr>GetStart = start, GetEnd = end'\<rparr>]
         | n # _ \<Rightarrow>
             if GetStart n > end' then Some (\<lparr>GetStart = start, GetEnd = end'\<rparr> # next)
             else None))"

definition IntersectsWith :: "LiveRange \<Rightarrow> LiveRange \<Rightarrow> bool" where
  "IntersectsWith this other =
     ((GetStart this \<ge> GetStart other \<and> GetStart this < GetEnd other)
      \<or> (GetStart other \<ge> GetStart this \<and> GetStart other < GetEnd this))"

definition IsBefore :: "LiveRange \<Rightarrow> LiveRange \<Rightarrow> bool" where
  "IsBefore this other = (GetEnd this \<le> GetStart other)"

datatype Primitive =
  kPrimNot | kPrimBoolean | kPrimByte | kPrimChar | kPrimShort | kPrimInt | kPrimLong
  | kPrimFloat | kPrimDouble | kPrimVoid

text \<open>
  What the liveness code reads of an instruction: its lifetime position, the lifetime
  range of its block, whether it is a phi and whether it needs an environment.
\<close>

record UserInfo =
  GetLifetimePosition :: nat
  BlockLifetimeStart :: nat
  BlockLifetimeEnd :: nat
  IsPhi :: bool
  NeedsEnvironment :: bool

record UsePosition =
  GetUser :: UserInfo
  GetPosition :: nat


text \<open>
  A \<open>LiveInterval\<close>. \<open>next_sibling\<close> is the address of the sibling in the arena of
  intervals (\<open>None\<close> for \<open>nullptr\<close>), \<open>register\<close> is \<open>kNoRegister = -1\<close> when
  unassigned. The list of uses is shared by value between siblings.
\<close>

record LiveInterval =
  ranges :: "LiveRange list"
  first_use :: "UsePosition list"
  interval_type :: Primitive
  next_sibling :: "nat option"
  register :: int

definition kNoRegister :: int where
  "kNoRegister = - 1"

definition NewLiveInterval :: "Primitive \<Rightarrow> LiveInterval" where
  "NewLiveInterval t =
     \<lparr>ranges = [], first_use = [], interval_type = t, next_sibling = None,
      register = kNoRegister\<rparr>"






definition IsDeadAt :: "nat \<Rightarrow> LiveInterval \<Rightarrow> bool option" where
  "IsDeadAt position iv =
     (if ranges iv = [] then None else Some (GetEnd (last (ranges iv)) \<le> position))"

fun covers_ranges :: "nat \<Rightarrow> LiveRange list \<Rightarrow> bool" where
  "covers_ranges position [] = False"
| "covers_ranges position (current # rest) =
     (if position \<ge> GetStart current \<and> position < GetEnd current then True
      else covers_ranges position rest)"

definition Covers :: "LiveInterval \<Rightarrow> nat \<Rightarrow> bool" where
  "Covers iv position = covers_ranges position (ranges iv)"

definition IntervalStart :: "LiveInterval \<Rightarrow> nat option" where
  "IntervalStart iv = (case ranges iv of [] \<Rightarrow> None | first # _ \<Rightarrow> Some (GetStart first))"

text \<open>
  \<open>FirstIntersectionWith\<close>. The result \<open>kNoLifetime\<close> is a sentinel of type
  \<open>size_t\<close> declared outside the sources at hand; it is kept apart from the positions.
  \<open>skip_to_start\<close> is the first loop (move to the range of this interval that starts
  after the other interval), \<open>sweep\<close> is the \<open>do ... while (true)\<close> loop.
\<close>

datatype lifetime = kNoLifetime | Lifetime nat

fun skip_to_start :: "nat \<Rightarrow> LiveRange list \<Rightarrow> LiveRange list" where
  "skip_to_start other_start [] = []"
| "skip_to_start other_start (my_range # rest) =
     (if GetStart my_range \<ge> other_start then my_range # rest
      else skip_to_start other_start rest)"

fun sweep :: "LiveRange list \<Rightarrow> LiveRange list \<Rightarrow> lifetime option" where
  "sweep [] other = None"
| "sweep my [] = None"
| "sweep (my_range # my_rest) (other_range # other_rest) =
     (if IntersectsWith my_range other_range
      then Some (Lifetime (max (GetStart my_range) (GetStart other_range)))
      else if IsBefore my_range other_range then
        (if my_rest = [] then Some kNoLifetime
         else sweep my_rest (other_range # other_rest))
      else if \<not> IsBefore other_range my_range then None
      else
        (if other_rest = [] then Some kNoLifetime
         else sweep (my_range # my_rest) other_rest))"

definition FirstIntersectionWith :: "LiveInterval \<Rightarrow> LiveInterval \<Rightarrow> lifetime option" where
  "FirstIntersectionWith this other =
     (case (IntervalStart this, IntervalStart other) of
        (Some my_start, Some other_start) \<Rightarrow>
          if Covers this other_start then None
          else if \<not> my_start \<le> other_start then None
          else
            (case skip_to_start other_start (ranges this) of
               [] \<Rightarrow> Some kNoLifetime
             | my_range # my_rest \<Rightarrow> sweep (my_range # my_rest) (ranges other))
      | _ \<Rightarrow> None)"

fun first_register_use :: "nat \<Rightarrow> UsePosition list \<Rightarrow> lifetime" where
  "first_register_use position [] = kNoLifetime"
| "first_register_use position (use # rest) =
     (if GetPosition use \<ge> position \<and> \<not> NeedsEnvironment (GetUser use)
      then Lifetime (GetPosition use)
      else first_register_use position rest)"

definition FirstRegisterUseAfter :: "nat \<Rightarrow> LiveInterval \<Rightarrow> lifetime" where
  "FirstRegisterUseAfter position iv = first_register_use position (first_use iv)"

text \<open>
  The \<open>do ... while (current != nullptr)\<close> loop of \<open>SplitAt\<close>: the list
  \<open>previous\<close> holds the ranges up to the range \<open>previous\<close> of the code (it is empty
  for \<open>nullptr\<close>); the result is the chain left in this interval and the
  chain of the new interval. Running off the end of the chain is the
  \<open>LOG(FATAL) << "Unreachable"\<close>.
\<close>

fun split_ranges :: "nat \<Rightarrow> LiveRange list \<Rightarrow> LiveRange list
    \<Rightarrow> (LiveRange list \<times> LiveRange list) option" where
  "split_ranges position previous [] = None"
| "split_ranges position previous (current # rest) =
     (if position \<ge> GetEnd current then split_ranges position (previous @ [current]) rest
      else if position \<le> GetStart current then
        (if previous = [] then None else Some (previous, current # rest))
      else
        (case NewLiveRange (GetStart current) position [] of
           None \<Rightarrow> None
         | Some new_last \<Rightarrow> Some (previous @ new_last, current\<lparr>GetStart := position\<rparr> # rest)))"

text \<open>
  \<open>SplitAt(position)\<close>; \<open>new_interval\<close> is the address the arena gives the new
  sibling. The result is this interval after the call and the new interval, or
  \<open>None\<close> for the returned \<open>nullptr\<close> (no split).
\<close>

definition SplitAt :: "nat \<Rightarrow> nat \<Rightarrow> LiveInterval \<Rightarrow> (LiveInterval \<times> LiveInterval option) option" where
  "SplitAt new_interval position iv =
     (if next_sibling iv \<noteq> None then None
      else
        (case IntervalStart iv of
           None \<Rightarrow> None
         | Some start \<Rightarrow>
             if \<not> position > start then None
             else if GetEnd (last (ranges iv)) \<le> position then Some (iv, None)
             else
               (case split_ranges position [] (ranges iv) of
                  None \<Rightarrow> None
                | Some (mine, others) \<Rightarrow>
                    Some (iv\<lparr>ranges := mine, next_sibling := Some new_interval\<rparr>,
                          Some ((NewLiveInterval (interval_type iv))
                                  \<lparr>first_use := first_use iv, ranges := others\<rparr>)))))"





section \<open>The graph builder (builder.cc)\<close>

subsection \<open>Bytecode and graph\<close>

text \<open>
  The opcodes of \<open>Instruction::Code\<close> that \<open>AnalyzeDexInstruction\<close> has a case for;
  \<open>OTHER n\<close> is any other opcode, which takes the \<open>default\<close> branch of its
  \<open>switch\<close>.
\<close>

datatype Code =
  NOP | MOVE | RETURN_VOID | RETURN | RETURN_OBJECT | CONST_4 | CONST_16
  | GOTO | GOTO_16 | GOTO_32 | IF_EQ | IF_NE
  | INVOKE_DIRECT | INVOKE_STATIC | INVOKE_STATIC_RANGE | INVOKE_DIRECT_RANGE
  | ADD_INT | SUB_INT | ADD_INT_2ADDR | SUB_INT_2ADDR | ADD_INT_LIT16 | RSUB_INT
  | ADD_INT_LIT8 | RSUB_INT_LIT8 | NEW_INSTANCE
  | OTHER nat

text \<open>
  A decoded bytecode instruction, with what the builder reads of it. The accessors
  that depend on the instruction format (\<open>VRegB_11n\<close>, \<open>VRegB_21s\<close>,
  \<open>VRegC_22s\<close>, \<open>VRegA_35c\<close>, ...) read the same decoded operands \<open>VRegA\<close>,
  \<open>VRegB\<close>, \<open>VRegC\<close>; \<open>GetArgs\<close> is the argument array of an invoke.
\<close>

record Instruction =
  Opcode :: Code
  VRegA :: int
  VRegB :: int
  VRegC :: int
  GetArgs :: "int list"
  GetTargetOffset :: int
  SizeInCodeUnits :: nat
  IsBranch :: bool

text \<open>
  A code item. \<open>insns\<close> is the sequence of instructions that \<open>Instruction::At\<close>
  decodes from \<open>insns_\<close> up to \<open>insns_size_in_code_units_\<close>, so that
  \<open>code_ptr < code_end\<close> holds exactly while instructions remain, and the size in code
  units is the sum of the sizes of the instructions.
\<close>

record CodeItem =
  registers_size :: nat
  ins_size :: nat
  outs_size :: nat
  tries_size :: nat
  insns :: "Instruction list"

definition code_units :: "Instruction list \<Rightarrow> nat" where
  "code_units code = sum_list (map SizeInCodeUnits code)"

definition insns_size_in_code_units :: "CodeItem \<Rightarrow> nat" where
  "insns_size_in_code_units code_item = code_units (insns code_item)"

text \<open>
  The instructions of the graph. An instruction that uses another holds it as a value;
  an \<open>HInvokeStatic\<close> holds the arguments set by \<open>SetArgumentAt\<close>, the number of
  arguments, the bytecode offset and the method index.
\<close>

datatype HInstruction =
  HLocal nat
  | HParameterValue nat
  | HStoreLocal HInstruction HInstruction
  | HLoadLocal HInstruction
  | HIntConstant int
  | HEqual HInstruction HInstruction
  | HNot HInstruction
  | HIf HInstruction
  | HGoto
  | HExit
  | HReturnVoid
  | HReturn HInstruction
  | HAdd Primitive HInstruction HInstruction
  | HSub Primitive HInstruction HInstruction
  | HNewInstance int int
  | HPushArgument HInstruction nat
  | HInvokeStatic "HInstruction list" nat int int

text \<open>
  Basic blocks live in the arena and are referred to by their address there (\<open>None\<close>
  for \<open>nullptr\<close>). A graph lists the blocks added to it, in the order of
  \<open>AddBlock\<close>.
\<close>

record HBasicBlock =
  instructions :: "HInstruction list"
  successors :: "nat list"

record HGraph =
  blocks :: "nat list"
  graph_entry_block :: "nat option"
  graph_exit_block :: "nat option"
  number_of_vregs :: nat
  number_of_in_vregs :: nat
  maximum_number_of_out_vregs :: nat

definition NewHGraph :: HGraph where
  "NewHGraph =
     \<lparr>blocks = [], graph_entry_block = None, graph_exit_block = None, number_of_vregs = 0,
      number_of_in_vregs = 0, maximum_number_of_out_vregs = 0\<rparr>"

text \<open>
  What the builder reads of the method and of the dex file: the shorty and the static
  flag of the compilation unit, and for a method index the primitive type
  \<open>Primitive::GetType(descriptor[0])\<close> of the descriptor of its return type.
\<close>

record DexCompilationUnit =
  GetShorty :: string
  IsStatic :: bool

record DexFile =
  ReturnType :: "int \<Rightarrow> Primitive"

record HGraphBuilder =
  block_arena :: "HBasicBlock list"
  graph :: HGraph
  locals :: "HInstruction list"
  branch_targets :: "nat option list"
  entry_block :: "nat option"
  exit_block :: "nat option"
  current_block :: "nat option"
  constant0 :: "HInstruction option"
  constant1 :: "HInstruction option"
  dex_file :: DexFile
  dex_compilation_unit :: "DexCompilationUnit option"

text \<open>
  In this section a result \<open>None\<close> is a failed \<open>DCHECK\<close>, an access outside an
  array or through a null or dangling pointer, or a loop that does not end.
  \<open>new (arena_) HBasicBlock(graph_)\<close> allocates an empty block at a fresh address.
\<close>

definition NewBasicBlock :: "HGraphBuilder \<Rightarrow> nat \<times> HGraphBuilder" where
  "NewBasicBlock b =
     (length (block_arena b), b\<lparr>block_arena := block_arena b @ [\<lparr>instructions = [], successors = []\<rparr>]\<rparr>)"

definition AddInstruction :: "nat option \<Rightarrow> HInstruction \<Rightarrow> HGraphBuilder
    \<Rightarrow> HGraphBuilder option" where
  "AddInstruction block instruction b =
     (case block of
        None \<Rightarrow> None
      | Some a \<Rightarrow>
          if a < length (block_arena b)
          then Some (b\<lparr>block_arena := (block_arena b)
                  [a := (block_arena b ! a)\<lparr>instructions := instructions (block_arena b ! a) @ [instruction]\<rparr>]\<rparr>)
          else None)"

definition AddSuccessor :: "nat option \<Rightarrow> nat \<Rightarrow> HGraphBuilder \<Rightarrow> HGraphBuilder option" where
  "AddSuccessor block successor b =
     (case block of
        None \<Rightarrow> None
      | Some a \<Rightarrow>
          if a < length (block_arena b)
          then Some (b\<lparr>block_arena := (block_arena b)
                  [a := (block_arena b ! a)\<lparr>successors := successors (block_arena b ! a) @ [successor]\<rparr>]\<rparr>)
          else None)"

definition AddBlock :: "nat \<Rightarrow> HGraphBuilder \<Rightarrow> HGraphBuilder" where
  "AddBlock block b = b\<lparr>graph := (graph b)\<lparr>blocks := blocks (graph b) @ [block]\<rparr>\<rparr>"

subsection \<open>Locals, constants and block boundaries\<close>

definition GetLocalAt :: "int \<Rightarrow> HGraphBuilder \<Rightarrow> HInstruction option" where
  "GetLocalAt register_index b =
     (if 0 \<le> register_index \<and> register_index < int (length (locals b))
      then Some (locals b ! nat register_index)
      else None)"

text \<open>
  \<open>UpdateLocal\<close> and \<open>LoadLocal\<close>; the latter returns the instruction it has just
  added, which is the last instruction of the current block.
\<close>

definition UpdateLocal :: "int \<Rightarrow> HInstruction \<Rightarrow> HGraphBuilder \<Rightarrow> HGraphBuilder option" where
  "UpdateLocal register_index instruction b =
     do {
       local \<leftarrow> GetLocalAt register_index b;
       AddInstruction (current_block b) (HStoreLocal local instruction) b
     }"

definition LoadLocal :: "int \<Rightarrow> HGraphBuilder \<Rightarrow> (HInstruction \<times> HGraphBuilder) option" where
  "LoadLocal register_index b =
     do {
       local \<leftarrow> GetLocalAt register_index b;
       b \<leftarrow> AddInstruction (current_block b) (HLoadLocal local) b;
       Some (HLoadLocal local, b)
     }"

definition GetConstant0 :: "HGraphBuilder \<Rightarrow> (HInstruction \<times> HGraphBuilder) option" where
  "GetConstant0 b =
     (case constant0 b of
        Some c \<Rightarrow> Some (c, b)
      | None \<Rightarrow>
          do {
            b \<leftarrow> AddInstruction (entry_block b) (HIntConstant 0) (b\<lparr>constant0 := Some (HIntConstant 0)\<rparr>);
            Some (HIntConstant 0, b)
          })"

definition GetConstant1 :: "HGraphBuilder \<Rightarrow> (HInstruction \<times> HGraphBuilder) option" where
  "GetConstant1 b =
     (case constant1 b of
        Some c \<Rightarrow> Some (c, b)
      | None \<Rightarrow>
          do {
            b \<leftarrow> AddInstruction (entry_block b) (HIntConstant 1) (b\<lparr>constant1 := Some (HIntConstant 1)\<rparr>);
            Some (HIntConstant 1, b)
          })"

definition GetConstant :: "int \<Rightarrow> HGraphBuilder \<Rightarrow> (HInstruction \<times> HGraphBuilder) option" where
  "GetConstant constant b =
     (if constant = 0 then GetConstant0 b
      else if constant = 1 then GetConstant1 b
      else
        do {
          b \<leftarrow> AddInstruction (entry_block b) (HIntConstant constant) b;
          Some (HIntConstant constant, b)
        })"

text \<open>
  \<open>FindBlockStartingAt\<close>: the outer \<open>None\<close> is an index outside
  \<open>branch_targets_\<close>, the inner one is the \<open>nullptr\<close> stored there. \<open>PutBlock\<close> is
  \<open>branch_targets_.Put\<close>.
\<close>

definition FindBlockStartingAt :: "int \<Rightarrow> HGraphBuilder \<Rightarrow> nat option option" where
  "FindBlockStartingAt index b =
     (if 0 \<le> index \<and> index < int (length (branch_targets b))
      then Some (branch_targets b ! nat index)
      else None)"

definition PutBlock :: "int \<Rightarrow> nat \<Rightarrow> HGraphBuilder \<Rightarrow> HGraphBuilder option" where
  "PutBlock index block b =
     (if 0 \<le> index \<and> index < int (length (branch_targets b))
      then Some (b\<lparr>branch_targets := (branch_targets b)[nat index := Some block]\<rparr>)
      else None)"

definition InitializeLocals :: "nat \<Rightarrow> HGraphBuilder \<Rightarrow> HGraphBuilder option" where
  "InitializeLocals count b =
     fold (\<lambda>i r. Option.bind r (AddInstruction (entry_block b) (HLocal i))) [0..<count]
       (Some (b\<lparr>graph := (graph b)\<lparr>number_of_vregs := count\<rparr>,
                locals := map HLocal [0..<count]\<rparr>))"

subsection \<open>Parameters\<close>

text \<open>
  The shorty is a C string: the character after its last one is the terminator, and
  reading behind the terminator is an access outside the array.
\<close>

definition shorty_at :: "string \<Rightarrow> nat \<Rightarrow> char option" where
  "shorty_at shorty pos =
     (if pos < length shorty then Some (shorty ! pos)
      else if pos = length shorty then Some (CHR 0x00)
      else None)"

text \<open>
  The two statements that bind one parameter: an \<open>HParameterValue\<close> and the store into
  its local, both in the entry block.
\<close>

definition bind_parameter :: "nat \<Rightarrow> int \<Rightarrow> HGraphBuilder \<Rightarrow> HGraphBuilder option" where
  "bind_parameter parameter_index locals_index b =
     do {
       b \<leftarrow> AddInstruction (entry_block b) (HParameterValue parameter_index) b;
       local \<leftarrow> GetLocalAt locals_index b;
       AddInstruction (entry_block b) (HStoreLocal local (HParameterValue parameter_index)) b
     }"

text \<open>
  The \<open>for\<close> loop of \<open>InitializeParameters\<close>, with the number of iterations left.
  The result is the returned flag and the builder.
\<close>

fun parameters_loop :: "nat \<Rightarrow> string \<Rightarrow> nat \<Rightarrow> nat \<Rightarrow> int \<Rightarrow> HGraphBuilder
    \<Rightarrow> (bool \<times> HGraphBuilder) option" where
  "parameters_loop 0 shorty pos parameter_index locals_index b = Some (True, b)"
| "parameters_loop (Suc n) shorty pos parameter_index locals_index b =
     (case shorty_at shorty pos of
        None \<Rightarrow> None
      | Some c \<Rightarrow>
          if c = CHR ''F'' \<or> c = CHR ''D'' \<or> c = CHR ''J'' then Some (False, b)
          else
            do {
              b \<leftarrow> bind_parameter parameter_index locals_index b;
              parameters_loop n shorty (pos + 1) (parameter_index + 1) (locals_index + 1) b
            })"

text \<open>
  \<open>InitializeParameters\<close>. For an instance method \<open>number_of_parameters--\<close> is
  reached only after \<open>GetLocalAt(locals_index)\<close>, which fails when the number is 0, so
  the decrement does not wrap.
\<close>

definition InitializeParameters :: "nat \<Rightarrow> HGraphBuilder \<Rightarrow> (bool \<times> HGraphBuilder) option" where
  "InitializeParameters number_of_parameters b =
     (case dex_compilation_unit b of
        None \<Rightarrow> Some (True, b)
      | Some unit \<Rightarrow>
          (let b = b\<lparr>graph := (graph b)\<lparr>number_of_in_vregs := number_of_parameters\<rparr>\<rparr>;
               shorty = GetShorty unit;
               locals_index = int (length (locals b)) - int number_of_parameters
           in if \<not> IsStatic unit then
                do {
                  b \<leftarrow> bind_parameter 0 locals_index b;
                  parameters_loop (number_of_parameters - 1) shorty 1 1 (locals_index + 1) b
                }
              else parameters_loop number_of_parameters shorty 1 0 locals_index b))"

definition CanHandleCodeItem :: "CodeItem \<Rightarrow> bool" where
  "CanHandleCodeItem code_item = (if tries_size code_item > 0 then False else True)"

subsection \<open>Block boundaries\<close>

text \<open>
  \<open>branch_targets_.SetSize\<close> keeps the elements the array has and fills up with
  \<open>nullptr\<close>.
\<close>

definition SetSize :: "nat \<Rightarrow> 'a option list \<Rightarrow> 'a option list" where
  "SetSize n xs = take n xs @ replicate (n - length xs) None"

definition ensure_block :: "int \<Rightarrow> HGraphBuilder \<Rightarrow> HGraphBuilder option" where
  "ensure_block index b =
     do {
       found \<leftarrow> FindBlockStartingAt index b;
       (case found of
          None \<Rightarrow> (let (block, b) = NewBasicBlock b in PutBlock index block b)
        | Some _ \<Rightarrow> Some b)
     }"

text \<open>
  The \<open>while\<close> loop of \<open>ComputeBranchTargets\<close>. An instruction of size 0 would keep
  the loop at the same address for ever.
\<close>

fun branch_targets_loop :: "int \<Rightarrow> Instruction list \<Rightarrow> HGraphBuilder \<Rightarrow> HGraphBuilder option" where
  "branch_targets_loop dex_offset [] b = Some b"
| "branch_targets_loop dex_offset (instruction # rest) b =
     (if SizeInCodeUnits instruction = 0 then None
      else if IsBranch instruction then
        do {
          b \<leftarrow> ensure_block (GetTargetOffset instruction + dex_offset) b;
          b \<leftarrow> (if rest \<noteq> [] then ensure_block (dex_offset + int (SizeInCodeUnits instruction)) b
                else Some b);
          branch_targets_loop (dex_offset + int (SizeInCodeUnits instruction)) rest b
        }
      else branch_targets_loop (dex_offset + int (SizeInCodeUnits instruction)) rest b)"

definition ComputeBranchTargets :: "Instruction list \<Rightarrow> HGraphBuilder \<Rightarrow> HGraphBuilder option" where
  "ComputeBranchTargets code b =
     (let b = b\<lparr>branch_targets := SetSize (code_units code) (branch_targets b)\<rparr>;
          (block, b) = NewBasicBlock b
      in do {
           b \<leftarrow> PutBlock 0 block b;
           b \<leftarrow> AddSuccessor (entry_block b) block b;
           branch_targets_loop 0 code b
         })"

definition MaybeUpdateCurrentBlock :: "int \<Rightarrow> HGraphBuilder \<Rightarrow> HGraphBuilder option" where
  "MaybeUpdateCurrentBlock index b =
     do {
       found \<leftarrow> FindBlockStartingAt index b;
       (case found of
          None \<Rightarrow> Some b
        | Some block \<Rightarrow>
            do {
              b \<leftarrow> (case current_block b of
                      None \<Rightarrow> Some b
                    | Some current \<Rightarrow>
                        do {
                          b \<leftarrow> AddInstruction (Some current) HGoto b;
                          AddSuccessor (Some current) block b
                        });
              Some ((AddBlock block b)\<lparr>current_block := Some block\<rparr>)
            })
     }"

subsection \<open>Translation of one instruction\<close>

text \<open>
  \<open>If_22t<T>\<close> and the four \<open>Binop\<close> templates take the constructor of the graph
  instruction as an argument. The \<open>DCHECK\<close>s on the targets of a branch fail on
  \<open>nullptr\<close>.
\<close>

definition If_22t :: "(HInstruction \<Rightarrow> HInstruction \<Rightarrow> HInstruction) \<Rightarrow> Instruction \<Rightarrow> int \<Rightarrow> bool
    \<Rightarrow> HGraphBuilder \<Rightarrow> HGraphBuilder option" where
  "If_22t T instruction dex_offset is_not b =
     do {
       (first, b) \<leftarrow> LoadLocal (VRegA instruction) b;
       (second, b) \<leftarrow> LoadLocal (VRegB instruction) b;
       b \<leftarrow> AddInstruction (current_block b) (T first second) b;
       b \<leftarrow> (if is_not then AddInstruction (current_block b) (HNot (T first second)) b else Some b);
       b \<leftarrow> AddInstruction (current_block b)
              (HIf (if is_not then HNot (T first second) else T first second)) b;
       target \<leftarrow> FindBlockStartingAt (GetTargetOffset instruction + dex_offset) b;
       target \<leftarrow> target;
       b \<leftarrow> AddSuccessor (current_block b) target b;
       target \<leftarrow> FindBlockStartingAt (dex_offset + int (SizeInCodeUnits instruction)) b;
       target \<leftarrow> target;
       b \<leftarrow> AddSuccessor (current_block b) target b;
       Some (b\<lparr>current_block := None\<rparr>)
     }"

definition Binop_32x :: "(Primitive \<Rightarrow> HInstruction \<Rightarrow> HInstruction \<Rightarrow> HInstruction) \<Rightarrow> Instruction
    \<Rightarrow> HGraphBuilder \<Rightarrow> HGraphBuilder option" where
  "Binop_32x T instruction b =
     do {
       (first, b) \<leftarrow> LoadLocal (VRegB instruction) b;
       (second, b) \<leftarrow> LoadLocal (VRegC instruction) b;
       b \<leftarrow> AddInstruction (current_block b) (T kPrimInt first second) b;
       UpdateLocal (VRegA instruction) (T kPrimInt first second) b
     }"

definition Binop_12x :: "(Primitive \<Rightarrow> HInstruction \<Rightarrow> HInstruction \<Rightarrow> HInstruction) \<Rightarrow> Instruction
    \<Rightarrow> HGraphBuilder \<Rightarrow> HGraphBuilder option" where
  "Binop_12x T instruction b =
     do {
       (first, b) \<leftarrow> LoadLocal (VRegA instruction) b;
       (second, b) \<leftarrow> LoadLocal (VRegB instruction) b;
       b \<leftarrow> AddInstruction (current_block b) (T kPrimInt first second) b;
       UpdateLocal (VRegA instruction) (T kPrimInt first second) b
     }"

text \<open>\<open>Binop_22s\<close> and \<open>Binop_22b\<close> differ only in the accessor of the literal.\<close>

definition Binop_22s :: "(Primitive \<Rightarrow> HInstruction \<Rightarrow> HInstruction \<Rightarrow> HInstruction) \<Rightarrow> Instruction
    \<Rightarrow> bool \<Rightarrow> HGraphBuilder \<Rightarrow> HGraphBuilder option" where
  "Binop_22s T instruction reverse b =
     do {
       (first, b) \<leftarrow> LoadLocal (VRegB instruction) b;
       (second, b) \<leftarrow> GetConstant (VRegC instruction) b;
       b \<leftarrow> AddInstruction (current_block b)
              (if reverse then T kPrimInt second first else T kPrimInt first second) b;
       UpdateLocal (VRegA instruction)
         (if reverse then T kPrimInt second first else T kPrimInt first second) b
     }"

definition Binop_22b :: "(Primitive \<Rightarrow> HInstruction \<Rightarrow> HInstruction \<Rightarrow> HInstruction) \<Rightarrow> Instruction
    \<Rightarrow> bool \<Rightarrow> HGraphBuilder \<Rightarrow> HGraphBuilder option" where
  "Binop_22b T instruction reverse b = Binop_22s T instruction reverse b"

text \<open>
  The argument loops of the invokes: each argument is loaded and pushed; the result is
  the list of the pushes, in order. \<open>args\<close> lists the registers of the arguments.
\<close>

fun push_arguments :: "nat \<Rightarrow> int list \<Rightarrow> HGraphBuilder \<Rightarrow> (HInstruction list \<times> HGraphBuilder) option" where
  "push_arguments i [] b = Some ([], b)"
| "push_arguments i (reg # regs) b =
     do {
       (arg, b) \<leftarrow> LoadLocal reg b;
       b \<leftarrow> AddInstruction (current_block b) (HPushArgument arg i) b;
       (pushes, b) \<leftarrow> push_arguments (i + 1) regs b;
       Some (HPushArgument arg i # pushes, b)
     }"

definition invoke :: "nat \<Rightarrow> int list \<Rightarrow> int \<Rightarrow> int \<Rightarrow> HGraphBuilder
    \<Rightarrow> (bool \<times> HGraphBuilder) option" where
  "invoke number_of_arguments args dex_offset method_idx b =
     (if ReturnType (dex_file b) method_idx \<noteq> kPrimVoid then Some (False, b)
      else if length args < number_of_arguments then None
      else
        do {
          (pushes, b) \<leftarrow> push_arguments 0 (take number_of_arguments args) b;
          b \<leftarrow> AddInstruction (current_block b)
                 (HInvokeStatic pushes number_of_arguments dex_offset method_idx) b;
          Some (True, b)
        })"

text \<open>
  \<open>AnalyzeDexInstruction\<close>: the returned flag and the builder. \<open>continue\<close> is a case
  that leaves the \<open>switch\<close> with \<open>break\<close>.
\<close>

definition continue :: "HGraphBuilder option \<Rightarrow> (bool \<times> HGraphBuilder) option" where
  "continue r = map_option (\<lambda>b. (True, b)) r"

definition AnalyzeDexInstruction :: "Instruction \<Rightarrow> int \<Rightarrow> HGraphBuilder
    \<Rightarrow> (bool \<times> HGraphBuilder) option" where
  "AnalyzeDexInstruction instruction dex_offset b =
     (if current_block b = None then Some (True, b)
      else
        (case Opcode instruction of
           CONST_4 \<Rightarrow>
             continue (do {
               (constant, b) \<leftarrow> GetConstant (VRegB instruction) b;
               UpdateLocal (VRegA instruction) constant b })
         | CONST_16 \<Rightarrow>
             continue (do {
               (constant, b) \<leftarrow> GetConstant (VRegB instruction) b;
               UpdateLocal (VRegA instruction) constant b })
         | MOVE \<Rightarrow>
             continue (do {
               (value, b) \<leftarrow> LoadLocal (VRegB instruction) b;
               UpdateLocal (VRegA instruction) value b })
         | RETURN_VOID \<Rightarrow>
             continue (do {
               b \<leftarrow> AddInstruction (current_block b) HReturnVoid b;
               exit \<leftarrow> exit_block b;
               b \<leftarrow> AddSuccessor (current_block b) exit b;
               Some (b\<lparr>current_block := None\<rparr>) })
         | IF_EQ \<Rightarrow> continue (If_22t HEqual instruction dex_offset False b)
         | IF_NE \<Rightarrow> continue (If_22t HEqual instruction dex_offset True b)
         | GOTO \<Rightarrow>
             continue (do {
               target \<leftarrow> FindBlockStartingAt (GetTargetOffset instruction + dex_offset) b;
               target \<leftarrow> target;
               b \<leftarrow> AddInstruction (current_block b) HGoto b;
               b \<leftarrow> AddSuccessor (current_block b) target b;
               Some (b\<lparr>current_block := None\<rparr>) })
         | GOTO_16 \<Rightarrow>
             continue (do {
               target \<leftarrow> FindBlockStartingAt (GetTargetOffset instruction + dex_offset) b;
               target \<leftarrow> target;
               b \<leftarrow> AddInstruction (current_block b) HGoto b;
               b \<leftarrow> AddSuccessor (current_block b) target b;
               Some (b\<lparr>current_block := None\<rparr>) })
         | GOTO_32 \<Rightarrow>
             continue (do {
               target \<leftarrow> FindBlockStartingAt (GetTargetOffset instruction + dex_offset) b;
               target \<leftarrow> target;
               b \<leftarrow> AddInstruction (current_block b) HGoto b;
               b \<leftarrow> AddSuccessor (current_block b) target b;
               Some (b\<lparr>current_block := None\<rparr>) })
         | RETURN \<Rightarrow>
             continue (do {
               (value, b) \<leftarrow> LoadLocal (VRegA instruction) b;
               b \<leftarrow> AddInstruction (current_block b) (HReturn value) b;
               exit \<leftarrow> exit_block b;
               b \<leftarrow> AddSuccessor (current_block b) exit b;
               Some (b\<lparr>current_block := None\<rparr>) })
         | RETURN_OBJECT \<Rightarrow>
             continue (do {
               (value, b) \<leftarrow> LoadLocal (VRegA instruction) b;
               b \<leftarrow> AddInstruction (current_block b) (HReturn value) b;
               exit \<leftarrow> exit_block b;
               b \<leftarrow> AddSuccessor (current_block b) exit b;
               Some (b\<lparr>current_block := None\<rparr>) })
         | INVOKE_STATIC \<Rightarrow>
             invoke (nat (VRegA instruction)) (GetArgs instruction) dex_offset (VRegB instruction) b
         | INVOKE_DIRECT \<Rightarrow>
             invoke (nat (VRegA instruction)) (GetArgs instruction) dex_offset (VRegB instruction) b
         | INVOKE_STATIC_RANGE \<Rightarrow>
             invoke (nat (VRegA instruction))
               (map (\<lambda>i. VRegC instruction + int i) [0..<nat (VRegA instruction)])
               dex_offset (VRegB instruction) b
         | INVOKE_DIRECT_RANGE \<Rightarrow>
             invoke (nat (VRegA instruction))
               (map (\<lambda>i. VRegC instruction + int i) [0..<nat (VRegA instruction)])
               dex_offset (VRegB instruction) b
         | ADD_INT \<Rightarrow> continue (Binop_32x HAdd instruction b)
         | SUB_INT \<Rightarrow> continue (Binop_32x HSub instruction b)
         | ADD_INT_2ADDR \<Rightarrow> continue (Binop_12x HAdd instruction b)
         | SUB_INT_2ADDR \<Rightarrow> continue (Binop_12x HSub instruction b)
         | ADD_INT_LIT16 \<Rightarrow> continue (Binop_22s HAdd instruction False b)
         | RSUB_INT \<Rightarrow> continue (Binop_22s HSub instruction True b)
         | ADD_INT_LIT8 \<Rightarrow> continue (Binop_22b HAdd instruction False b)
         | RSUB_INT_LIT8 \<Rightarrow> continue (Binop_22b HSub instruction True b)
         | NEW_INSTANCE \<Rightarrow>
             continue (do {
               b \<leftarrow> AddInstruction (current_block b)
                      (HNewInstance dex_offset (VRegB instruction)) b;
               UpdateLocal (VRegA instruction) (HNewInstance dex_offset (VRegB instruction)) b })
         | NOP \<Rightarrow> Some (True, b)
         | OTHER _ \<Rightarrow> Some (False, b)))"

subsection \<open>Building the graph\<close>

text \<open>
  The \<open>while\<close> loop of \<open>BuildGraph\<close>. The result \<open>Some None\<close> is the
  \<open>return nullptr\<close> of the loop, \<open>Some (Some b)\<close> is the builder when the loop has
  run to the end of the code.
  With an instruction of size 0 that is translated the loop stays at its
  address and does not return.
\<close>

fun build_loop :: "int \<Rightarrow> Instruction list \<Rightarrow> HGraphBuilder \<Rightarrow> HGraphBuilder option option" where
  "build_loop dex_offset [] b = Some (Some b)"
| "build_loop dex_offset (instruction # rest) b =
     do {
       b \<leftarrow> MaybeUpdateCurrentBlock dex_offset b;
       (ok, b) \<leftarrow> AnalyzeDexInstruction instruction dex_offset b;
       (if \<not> ok then Some None
        else if SizeInCodeUnits instruction = 0 then None
        else build_loop (dex_offset + int (SizeInCodeUnits instruction)) rest b)
     }"

text \<open>
  The statements of \<open>BuildGraph\<close> from the creation of the graph to
  \<open>ComputeBranchTargets\<close>.
\<close>

definition graph_setup :: "CodeItem \<Rightarrow> HGraphBuilder \<Rightarrow> HGraphBuilder option" where
  "graph_setup code_item b =
     (let b = b\<lparr>graph := NewHGraph\<rparr>;
          (entry, b) = NewBasicBlock b;
          b = AddBlock entry (b\<lparr>entry_block := Some entry\<rparr>);
          (exit, b) = NewBasicBlock b;
          b = b\<lparr>exit_block := Some exit\<rparr>;
          b = b\<lparr>graph := (graph b)\<lparr>graph_entry_block := entry_block b,
                                  graph_exit_block := exit_block b\<rparr>\<rparr>
      in do {
           b \<leftarrow> InitializeLocals (registers_size code_item) b;
           ComputeBranchTargets (insns code_item)
             (b\<lparr>graph := (graph b)\<lparr>maximum_number_of_out_vregs :=
                   max (maximum_number_of_out_vregs (graph b)) (outs_size code_item)\<rparr>\<rparr>)
         })"

text \<open>
  \<open>BuildGraph\<close>. The result \<open>Some None\<close> is the returned \<open>nullptr\<close>;
  \<open>Some (Some b)\<close> is the builder at the return of \<open>graph_\<close>, the graph being
  \<open>graph b\<close> with its blocks in \<open>block_arena b\<close>.
\<close>

definition BuildGraph :: "CodeItem \<Rightarrow> HGraphBuilder \<Rightarrow> HGraphBuilder option option" where
  "BuildGraph code_item b =
     (if \<not> CanHandleCodeItem code_item then Some None
      else
        do {
          b \<leftarrow> graph_setup code_item b;
          (ok, b) \<leftarrow> InitializeParameters (ins_size code_item) b;
          (if \<not> ok then Some None
           else
             do {
               r \<leftarrow> build_loop 0 (insns code_item) b;
               (case r of
                  None \<Rightarrow> Some None
                | Some b \<Rightarrow>
                    do {
                      exit \<leftarrow> exit_block b;
                      b \<leftarrow> AddInstruction (Some exit) HExit (AddBlock exit b);
                      b \<leftarrow> AddInstruction (entry_block b) HGoto b;
                      Some (Some b)
                    })
             })
        })"

section \<open>Auxiliary notions for the proofs\<close>

text \<open>
  The rotation field the loop of \<open>EncodeLogicalImmediate\<close> computes, on natural
  numbers, and what a result of the loop has to satisfy: its fields fit their widths and
  the pattern they decode to is the list of bits the loop was run on.
\<close>

definition rotation_of :: "nat \<Rightarrow> nat \<Rightarrow> nat \<Rightarrow> nat \<Rightarrow> nat \<Rightarrow> nat" where
  "rotation_of w lz tz lo pc = (if lz + pc = w then 0 else if lz > 0 then w - tz else lo)"

definition loop_post :: "nat \<Rightarrow> bool list \<Rightarrow> (u32 \<times> u32 \<times> u32) option \<Rightarrow> bool" where
  "loop_post W bs r =
     (case r of
        None \<Rightarrow> True
      | Some (n, immr, imms) \<Rightarrow>
          unat n \<le> 1 \<and> unat immr < 64 \<and> unat imms < 64
          \<and> decode_pattern W (unat n) (unat immr) (unat imms) = Some bs)"




text \<open>
  The order of a chain of ranges: each range ends strictly before the next one starts
  (\<open>chain_ok\<close>, what the constructor of \<open>LiveRange\<close> checks against its successor);
  every range is non-empty; and every range ends strictly before every later range starts
  (\<open>ranges_disjoint\<close>: the ranges are strictly increasing and pairwise disjoint, and no
  two touch).
\<close>

definition chain_ok :: "LiveRange list \<Rightarrow> bool" where
  "chain_ok rs = successively (\<lambda>a b. GetEnd a < GetStart b) rs"

definition ranges_nonempty :: "LiveRange list \<Rightarrow> bool" where
  "ranges_nonempty rs = list_all (\<lambda>r. GetStart r < GetEnd r) rs"



text \<open>
  The weaker ordering in which ranges may touch: every range ends at or before the start of
  every later range. The first common position of two chains, and chains with no common
  position.
\<close>

definition ranges_ordered :: "LiveRange list \<Rightarrow> bool" where
  "ranges_ordered rs = sorted_wrt (\<lambda>a b. GetEnd a \<le> GetStart b) rs"

definition first_common :: "LiveRange list \<Rightarrow> LiveRange list \<Rightarrow> nat \<Rightarrow> bool" where
  "first_common xs ys q =
     (covers_ranges q xs \<and> covers_ranges q ys
      \<and> (\<forall>q'. covers_ranges q' xs \<and> covers_ranges q' ys \<longrightarrow> q \<le> q'))"

definition no_common :: "LiveRange list \<Rightarrow> LiveRange list \<Rightarrow> bool" where
  "no_common xs ys =
     ((\<forall>a \<in> set xs. \<forall>b \<in> set ys. \<not> IntersectsWith a b)
      \<and> (\<forall>q. \<not> (covers_ranges q xs \<and> covers_ranges q ys)))"



section \<open>Example inputs\<close>

text \<open>
  Concrete inputs for the instances below: a choice of the target constants, a 32-bit and
  a 64-bit core register, a single and a double floating-point register, a base register,
  and a code generator state with nothing emitted and two temporaries, the first of them
  in use.
\<close>

definition ex_consts :: A64Consts where
  "ex_consts =
     \<lparr>rwzr = 63, rwsp = 31,
      rs_rA64_SP = \<lparr>GetReg = 31, IsFloat = False, Is64Bit = True\<rparr>,
      RegIsSingle = (\<lambda>r. 64 \<le> r \<and> r < 96),
      RegIsDouble = (\<lambda>r. 96 \<le> r \<and> r < 128),
      RegIsFloat = (\<lambda>r. 64 \<le> r \<and> r < 128)\<rparr>"

definition ex_w3 :: RegStorage where
  "ex_w3 = \<lparr>GetReg = 3, IsFloat = False, Is64Bit = False\<rparr>"



definition ex_w8 :: RegStorage where
  "ex_w8 = \<lparr>GetReg = 8, IsFloat = False, Is64Bit = False\<rparr>"

definition ex_w9 :: RegStorage where
  "ex_w9 = \<lparr>GetReg = 9, IsFloat = False, Is64Bit = False\<rparr>"

definition ex_state :: cg_state where
  "ex_state = \<lparr>lir_list = [], literal_list = [], temp_pool = [(ex_w8, True), (ex_w9, False)]\<rparr>"





definition ex_interval :: LiveInterval where
  "ex_interval = (NewLiveInterval kPrimInt)
     \<lparr>ranges := [\<lparr>GetStart = 2, GetEnd = 6\<rparr>, \<lparr>GetStart = 10, GetEnd = 20\<rparr>]\<rparr>"

definition ex_meeting :: LiveInterval where
  "ex_meeting = (NewLiveInterval kPrimInt)
     \<lparr>ranges := [\<lparr>GetStart = 7, GetEnd = 12\<rparr>, \<lparr>GetStart = 30, GetEnd = 40\<rparr>]\<rparr>"

definition ex_touching :: LiveInterval where
  "ex_touching = (NewLiveInterval kPrimInt)
     \<lparr>ranges := [\<lparr>GetStart = 6, GetEnd = 10\<rparr>, \<lparr>GetStart = 20, GetEnd = 30\<rparr>]\<rparr>"

section \<open>The graph builder: auxiliary notions\<close>

text \<open>
  Code whose instructions have a positive size and whose branches lead to an address
  inside the code; \<open>well_formed_code\<close> is such code with at least one instruction.
\<close>

fun branches_in_range :: "int \<Rightarrow> nat \<Rightarrow> Instruction list \<Rightarrow> bool" where
  "branches_in_range dex_offset n [] = True"
| "branches_in_range dex_offset n (instruction # rest) =
     (0 < SizeInCodeUnits instruction
      \<and> (if IsBranch instruction
         then 0 \<le> GetTargetOffset instruction + dex_offset
              \<and> GetTargetOffset instruction + dex_offset < int n
         else True)
      \<and> branches_in_range (dex_offset + int (SizeInCodeUnits instruction)) n rest)"

definition well_formed_code :: "Instruction list \<Rightarrow> bool" where
  "well_formed_code code = (code \<noteq> [] \<and> branches_in_range 0 (code_units code) code)"

text \<open>
  A step of the builder that only allocates blocks and fills blocks and block boundaries:
  it keeps the entry and the exit block, the locals, the compilation unit and the number of
  block boundaries.
\<close>

definition extends :: "HGraphBuilder \<Rightarrow> HGraphBuilder \<Rightarrow> bool" where
  "extends b b' =
     (length (block_arena b) \<le> length (block_arena b')
      \<and> entry_block b' = entry_block b \<and> exit_block b' = exit_block b
      \<and> locals b' = locals b \<and> dex_compilation_unit b' = dex_compilation_unit b
      \<and> length (branch_targets b') = length (branch_targets b))"

text \<open>
  No block starts at the address of any instruction of a stretch of code that begins at
  \<open>dex_offset\<close>.
\<close>

fun no_block_starts :: "int \<Rightarrow> Instruction list \<Rightarrow> HGraphBuilder \<Rightarrow> bool" where
  "no_block_starts dex_offset [] b = True"
| "no_block_starts dex_offset (instruction # rest) b =
     (FindBlockStartingAt dex_offset b = Some None
      \<and> 0 < SizeInCodeUnits instruction
      \<and> no_block_starts (dex_offset + int (SizeInCodeUnits instruction)) rest b)"

text \<open>The three characters of a shorty that \<open>InitializeParameters\<close> rejects.\<close>

definition wide_or_float :: "char \<Rightarrow> bool" where
  "wide_or_float c = (c = CHR ''F'' \<or> c = CHR ''D'' \<or> c = CHR ''J'')"

text \<open>
  Translation meets the instruction number \<open>n\<close> of the code with a current block, and
  that instruction has no case in \<open>AnalyzeDexInstruction\<close>: the graph is set up, the
  parameters are accepted, the loop of \<open>BuildGraph\<close> runs through the instructions
  before it, and after \<open>MaybeUpdateCurrentBlock\<close> at its address there is a current
  block.
\<close>

definition reaches_no_rule :: "CodeItem \<Rightarrow> HGraphBuilder \<Rightarrow> nat \<Rightarrow> bool" where
  "reaches_no_rule code_item b n =
     (n < length (insns code_item)
      \<and> (case Opcode (insns code_item ! n) of OTHER _ \<Rightarrow> True | _ \<Rightarrow> False)
      \<and> (case graph_setup code_item b of
           None \<Rightarrow> False
         | Some b \<Rightarrow>
             (case InitializeParameters (ins_size code_item) b of
                None \<Rightarrow> False
              | Some (ok, b) \<Rightarrow>
                  ok \<and>
                  (case build_loop 0 (take n (insns code_item)) b of
                     Some (Some b) \<Rightarrow>
                       (case MaybeUpdateCurrentBlock (int (code_units (take n (insns code_item)))) b of
                          None \<Rightarrow> False
                        | Some b \<Rightarrow> current_block b \<noteq> None)
                   | _ \<Rightarrow> False))))"

text \<open>The graph a call of \<open>BuildGraph\<close> returns, with the blocks of the arena.\<close>

definition graph_of :: "HGraphBuilder option option \<Rightarrow> (HGraph \<times> HBasicBlock list) option option" where
  "graph_of r = map_option (map_option (\<lambda>b. (graph b, block_arena b))) r"


text \<open>
  For the graph builder: a dex file whose methods all return \<open>void\<close>; a builder as its
  constructor leaves it; an instruction of size 1 with a given opcode; a code item with
  three registers of which two hold arguments; the compilation unit of a static method
  \<open>void (int, long)\<close>; the builder after \<open>return-void\<close> as the first instruction
  of a method; and the graph of a method that only returns.
\<close>

definition ex_dex_file :: DexFile where
  "ex_dex_file = \<lparr>ReturnType = (\<lambda>method_idx. kPrimVoid)\<rparr>"

definition ex_builder :: "DexCompilationUnit option \<Rightarrow> HGraphBuilder" where
  "ex_builder unit =
     \<lparr>block_arena = [], graph = NewHGraph, locals = [], branch_targets = [], entry_block = None,
      exit_block = None, current_block = None, constant0 = None, constant1 = None,
      dex_file = ex_dex_file, dex_compilation_unit = unit\<rparr>"

definition ex_instruction :: "Code \<Rightarrow> Instruction" where
  "ex_instruction code =
     \<lparr>Opcode = code, VRegA = 0, VRegB = 1, VRegC = 0, GetArgs = [0, 0, 0, 0, 0],
      GetTargetOffset = 0, SizeInCodeUnits = 1, IsBranch = False\<rparr>"

definition ex_code_item :: "nat \<Rightarrow> Instruction list \<Rightarrow> CodeItem" where
  "ex_code_item tries code =
     \<lparr>registers_size = 3, ins_size = 2, outs_size = 0, tries_size = tries, insns = code\<rparr>"

definition ex_unit :: DexCompilationUnit where
  "ex_unit = \<lparr>GetShorty = ''VIJ'', IsStatic = True\<rparr>"

definition ex_after_return :: HGraphBuilder where
  "ex_after_return =
     \<lparr>block_arena =
        [\<lparr>instructions = [HLocal 0, HLocal 1, HLocal 2], successors = [2]\<rparr>,
         \<lparr>instructions = [], successors = []\<rparr>,
         \<lparr>instructions = [HReturnVoid], successors = [1]\<rparr>],
      graph =
        \<lparr>blocks = [0, 2], graph_entry_block = Some 0, graph_exit_block = Some 1,
         number_of_vregs = 3, number_of_in_vregs = 0, maximum_number_of_out_vregs = 0\<rparr>,
      locals = [HLocal 0, HLocal 1, HLocal 2], branch_targets = [Some 2, None],
      entry_block = Some 0, exit_block = Some 1, current_block = None, constant0 = None,
      constant1 = None, dex_file = ex_dex_file, dex_compilation_unit = None\<rparr>"

definition ex_graph :: HGraphBuilder where
  "ex_graph =
     \<lparr>block_arena =
        [\<lparr>instructions = [HLocal 0, HLocal 1, HLocal 2, HGoto], successors = [2]\<rparr>,
         \<lparr>instructions = [HExit], successors = []\<rparr>,
         \<lparr>instructions = [HReturnVoid], successors = [1]\<rparr>],
      graph =
        \<lparr>blocks = [0, 2, 1], graph_entry_block = Some 0, graph_exit_block = Some 1,
         number_of_vregs = 3, number_of_in_vregs = 0, maximum_number_of_out_vregs = 0\<rparr>,
      locals = [HLocal 0, HLocal 1, HLocal 2], branch_targets = [Some 2, None],
      entry_block = Some 0, exit_block = Some 1, current_block = None, constant0 = None,
      constant1 = None, dex_file = ex_dex_file, dex_compilation_unit = None\<rparr>"

section \<open>Correctness of the logical-immediate encoder\<close>

subsection \<open>Runs of bits\<close>

lemma takeWhile_Not_form: "takeWhile Not bs = replicate (length (takeWhile Not bs)) False"
proof -
  have "\<forall>b \<in> set (takeWhile Not bs). b = False"
    by (auto dest: set_takeWhileD)
  then show ?thesis by (metis replicate_length_same)
qed

lemma all_True_form:
  assumes "length (filter id bs) = length bs"
  shows "bs = replicate (length bs) True"
proof -
  have "\<forall>b \<in> set bs. b = True"
  proof (rule ccontr)
    assume "\<not> (\<forall>b \<in> set bs. b = True)"
    then obtain b where "b \<in> set bs" "\<not> id b" by auto
    then have "length (filter id bs) < length bs" by (rule length_filter_less)
    with assms show False by simp
  qed
  then show ?thesis by (metis replicate_length_same)
qed

lemma run_form:
  assumes sum: "leading_zeros e + trailing_zeros e + set_bit_count e = length e"
    and nz: "True \<in> set e"
  shows "e = replicate (trailing_zeros e) False @ replicate (set_bit_count e) True
               @ replicate (leading_zeros e) False"
proof -
  define a where "a = takeWhile Not e"
  define r where "r = dropWhile Not e"
  define c where "c = takeWhile Not (rev r)"
  define m where "m = rev (dropWhile Not (rev r))"
  have e: "e = a @ r" by (simp add: a_def r_def)
  have r_ne: "r \<noteq> []" using nz by (auto simp: r_def)
  have "True \<in> set r" using hd_dropWhile [of Not e] r_ne
    by (metis (full_types) list.set_sel(1) r_def)
  then have tr: "True \<in> set (rev r)" by simp
  have lz: "takeWhile Not (rev e) = c"
    unfolding e c_def using tr by (simp)
  have r: "r = m @ rev c"
    by (metis c_def m_def rev_append rev_rev_ident takeWhile_dropWhile_id)
  have a_form: "a = replicate (length a) False" unfolding a_def by (rule takeWhile_Not_form)
  have c_form: "c = replicate (length c) False" unfolding c_def by (rule takeWhile_Not_form)
  have "filter id a = []" by (subst a_form) simp
  moreover have "filter id (rev c) = []" by (subst c_form) simp
  ultimately have pc: "set_bit_count e = length (filter id m)"
    by (simp add: set_bit_count_def e r)
  have len: "length e = length a + length m + length c" by (simp add: e r)
  have "length (filter id m) = length m"
    using sum pc len lz by (simp add: leading_zeros_def trailing_zeros_def a_def)
  then have m_form: "m = replicate (length m) True" by (rule all_True_form)
  have "e = a @ m @ rev c" by (simp add: e r)
  also have "\<dots> = replicate (length a) False @ replicate (length m) True @ replicate (length c) False"
    using a_form m_form c_form by (metis rev_replicate)
  finally show ?thesis
    using lz pc \<open>length (filter id m) = length m\<close>
    by (simp add: leading_zeros_def trailing_zeros_def a_def)
qed

lemma counts_map_Not:
  "set_bit_count (map Not e) = length e - set_bit_count e"
proof -
  have "length (filter id e) + length (filter (\<lambda>b. \<not> id b) e) = length e"
    by (rule sum_length_filter_compl)
  moreover have "filter id (map Not e) = map Not (filter (\<lambda>b. \<not> id b) e)"
    by (simp add: filter_map comp_def)
  ultimately show ?thesis by (simp add: set_bit_count_def)
qed

lemma map_Not_replicate: "map Not (replicate n b) = replicate n (\<not> b)"
  by simp

lemma inverted_run_form:
  assumes sum: "leading_zeros (map Not e) + trailing_zeros (map Not e)
                  + (length e - set_bit_count e) = length e"
    and nz: "False \<in> set e"
  shows "e = replicate (trailing_zeros (map Not e)) True
               @ replicate (length e - set_bit_count e) False
               @ replicate (leading_zeros (map Not e)) True"
proof -
  have "True \<in> set (map Not e)" using nz by force
  with sum have "map Not e =
      replicate (trailing_zeros (map Not e)) False
      @ replicate (set_bit_count (map Not e)) True
      @ replicate (leading_zeros (map Not e)) False"
    by (intro run_form) (simp_all add: counts_map_Not)
  then have "map Not (map Not e) = map Not (
      replicate (trailing_zeros (map Not e)) False
      @ replicate (set_bit_count (map Not e)) True
      @ replicate (leading_zeros (map Not e)) False)" by simp
  then show ?thesis by (simp add: counts_map_Not comp_def)
qed

lemma imm_s_table:
  "\<forall>w \<in> set [4, 8, 16, 32, 64]. \<forall>x \<in> set [0..<w - 1].
     (let imms = unat ((- of_nat (2 * w) OR of_nat x) AND 0x3f :: u32) in
      element_size (if w = 64 then 1 else 0) imms = Some w \<and> imms mod w = x \<and> imms < 64)"
  by code_simp

lemma fixed_table:
  "\<forall>w \<in> set [4, 8, 16, 32, 64 :: nat]. signed_drop_bit 1 (- of_nat (2 * w) :: u32) = - of_nat w"
  by code_simp

subsection \<open>Run lengths of explicit bit patterns\<close>

lemma takeWhile_Not_run: "takeWhile Not (replicate a False @ True # xs) = replicate a False"
  by (induction a) simp_all

lemma trailing_zeros_form:
  "trailing_zeros (replicate a False @ True # xs) = a"
  by (simp add: trailing_zeros_def takeWhile_Not_run)

lemma leading_zeros_form:
  "leading_zeros (xs @ True # replicate a False) = a"
  by (simp add: leading_zeros_def takeWhile_Not_run)

lemma leading_zeros_snoc_True: "leading_zeros (xs @ [True]) = 0"
  by (simp add: leading_zeros_def)

subsection \<open>Repeated elements\<close>

lemma trailing_zeros_periodic:
  assumes "True \<in> set e"
  shows "trailing_zeros (concat (replicate (Suc k) e)) = trailing_zeros e"
  using assms by (simp add: trailing_zeros_def)

lemma rev_concat_replicate: "rev (concat (replicate k e)) = concat (replicate k (rev e))"
  by (simp add: rev_concat rev_map)

lemma leading_zeros_periodic:
  assumes "True \<in> set e"
  shows "leading_zeros (concat (replicate (Suc k) e)) = leading_zeros e"
proof -
  have "rev (concat (replicate (Suc k) e)) = rev e @ concat (replicate k (rev e))"
    by (simp only: rev_concat_replicate) simp
  moreover have "True \<in> set (rev e)" using assms by simp
  ultimately show ?thesis by (simp add: leading_zeros_def)
qed

lemma set_bit_count_periodic:
  "set_bit_count (concat (replicate k e)) = k * set_bit_count e"
  by (induction k) (simp_all add: set_bit_count_def)

lemma map_Not_concat_replicate:
  "map Not (concat (replicate k e)) = concat (replicate k (map Not e))"
  by (simp add: map_concat)

lemma concat_replicate_double:
  "concat (replicate k (h @ h)) = concat (replicate (2 * k) h)"
  by (induction k) simp_all

lemma halves_equal:
  assumes len: "length e = 2 * h" and eq: "\<forall>i < h. e ! i = e ! (i + h)"
  shows "e = take h e @ take h e"
proof -
  have "drop h e = take h e"
    using len eq by (auto simp: list_eq_iff_nth_eq add.commute)
  then show ?thesis by (metis append_take_drop_id)
qed

subsection \<open>Rotations\<close>

lemma rotate_run:
  "rotate (p + l) (replicate p True @ replicate (l + t) False)
     = replicate t False @ replicate p True @ replicate l False"
proof -
  have "replicate p True @ replicate (l + t) False
          = (replicate p True @ replicate l False) @ replicate t False"
    by (simp add: replicate_add)
  moreover have "rotate (length (replicate p True @ replicate l False))
                   ((replicate p True @ replicate l False) @ replicate t False)
                 = replicate t False @ (replicate p True @ replicate l False)"
    by (rule rotate_append)
  ultimately show ?thesis by simp
qed

lemma rotate_inverted_run:
  "rotate l (replicate (l + t) True @ replicate z False)
     = replicate t True @ replicate z False @ replicate l True"
proof -
  have "replicate (l + t) True @ replicate z False
          = replicate l True @ (replicate t True @ replicate z False)"
    by (simp add: replicate_add)
  moreover have "rotate (length (replicate l True))
                   (replicate l True @ (replicate t True @ replicate z False))
                 = (replicate t True @ replicate z False) @ replicate l True"
    by (rule rotate_append)
  ultimately show ?thesis by simp
qed

lemma set_bit_count_pos: "True \<in> set e \<Longrightarrow> 0 < set_bit_count e"
  by (auto simp: set_bit_count_def filter_empty_conv)

lemma set_bit_count_less: "False \<in> set e \<Longrightarrow> set_bit_count e < length e"
  unfolding set_bit_count_def by (rule length_filter_less [of False]) simp_all

lemma replicate_pos_snoc: "0 < n \<Longrightarrow> replicate n x = replicate (n - 1) x @ [x]"
  by (cases n) (simp_all add: replicate_append_same)

lemma replicate_pos_Cons: "0 < n \<Longrightarrow> replicate n x = x # replicate (n - 1) x"
  by (cases n) simp_all

lemma run_rotation:
  assumes sum: "leading_zeros e + trailing_zeros e + set_bit_count e = length e"
    and nz: "True \<in> set e"
  shows "rotate (rotation_of (length e) (leading_zeros e) (trailing_zeros e)
                   (leading_zeros (map Not e)) (set_bit_count e))
           (replicate (set_bit_count e) True @ replicate (length e - set_bit_count e) False) = e
         \<and> rotation_of (length e) (leading_zeros e) (trailing_zeros e)
                   (leading_zeros (map Not e)) (set_bit_count e) < length e"
proof -
  define lz tz pc w where "lz = leading_zeros e" and "tz = trailing_zeros e"
    and "pc = set_bit_count e" and "w = length e"
  have form: "e = replicate tz False @ replicate pc True @ replicate lz False"
    unfolding lz_def tz_def pc_def using sum nz by (rule run_form)
  have w: "w = lz + tz + pc" using sum by (simp add: lz_def tz_def pc_def w_def)
  have pc: "0 < pc" unfolding pc_def using nz by (rule set_bit_count_pos)
  let ?P = "replicate pc True @ replicate (w - pc) False"
  have gen: "rotate (pc + lz) ?P = e"
  proof -
    have "w - pc = lz + tz" using w by simp
    then show ?thesis using rotate_run [of pc lz tz] form by simp
  qed
  have "rotate (rotation_of w lz tz (leading_zeros (map Not e)) pc) ?P = e
        \<and> rotation_of w lz tz (leading_zeros (map Not e)) pc < w"
  proof (cases "lz + pc = w")
    case True
    then have "tz = 0" using w by simp
    with form True pc show ?thesis by (simp add: rotation_of_def)
  next
    case False
    then have tz: "0 < tz" using w by simp
    show ?thesis
    proof (cases "0 < lz")
      case True
      with False gen w tz show ?thesis by (simp add: rotation_of_def add.commute)
    next
      case lz0: False
      then have e: "e = replicate tz False @ replicate pc True" using form by simp
      have "map Not e = replicate (tz - 1) True @ True # replicate pc False"
        by (subst e) (simp add: replicate_pos_snoc [OF tz])
      then have "leading_zeros (map Not e) = pc"
        by (simp only: leading_zeros_form)
      with False lz0 gen w tz show ?thesis by (simp add: rotation_of_def)
    qed
  qed
  then show ?thesis by (simp add: lz_def tz_def pc_def w_def)
qed

lemma inverted_run_rotation:
  assumes not3: "leading_zeros e + trailing_zeros e + set_bit_count e \<noteq> length e"
    and sum: "leading_zeros (map Not e) + trailing_zeros (map Not e)
                + (length e - set_bit_count e) = length e"
    and nz: "True \<in> set e" and no: "False \<in> set e"
  shows "rotate (rotation_of (length e) (leading_zeros e) (trailing_zeros e)
                   (leading_zeros (map Not e)) (set_bit_count e))
           (replicate (set_bit_count e) True @ replicate (length e - set_bit_count e) False) = e
         \<and> rotation_of (length e) (leading_zeros e) (trailing_zeros e)
                   (leading_zeros (map Not e)) (set_bit_count e) < length e"
proof -
  define lo to' pc w z where "lo = leading_zeros (map Not e)"
    and "to' = trailing_zeros (map Not e)"
    and "pc = set_bit_count e" and "w = length e" and "z = length e - set_bit_count e"
  have form: "e = replicate to' True @ replicate z False @ replicate lo True"
    unfolding lo_def to'_def z_def using sum no by (rule inverted_run_form)
  have pcw: "pc < w" unfolding pc_def w_def using no by (rule set_bit_count_less)
  have pc0: "0 < pc" unfolding pc_def using nz by (rule set_bit_count_pos)
  have z: "z = w - pc" "0 < z" using pcw by (simp_all add: z_def w_def pc_def)
  have w: "lo + to' + z = w" using sum by (simp add: lo_def to'_def z_def w_def)
  have pc: "pc = lo + to'" using w z pcw by simp
  have lo: "0 < lo"
  proof (rule ccontr)
    assume "\<not> 0 < lo"
    then have lo0: "lo = 0" by simp
    then have to: "0 < to'" using pc pc0 by simp
    have e1: "e = replicate (to' - 1) True @ True # replicate z False"
      using form lo0 by (simp add: replicate_pos_snoc [OF to])
    have e2: "e = replicate 0 False @ True # (replicate (to' - 1) True @ replicate z False)"
      using form lo0 by (simp add: replicate_pos_Cons [OF to])
    have "leading_zeros e = z" by (subst e1) (rule leading_zeros_form)
    moreover have "trailing_zeros e = 0" by (subst e2) (rule trailing_zeros_form)
    ultimately show False using not3 w lo0 pc by (simp add: pc_def w_def)
  qed
  have "e = (replicate to' True @ replicate z False @ replicate (lo - 1) True) @ [True]"
    using form by (simp add: replicate_pos_snoc [OF lo])
  then have lz: "leading_zeros e = 0" by (metis leading_zeros_snoc_True)
  have "rotate lo (replicate (lo + to') True @ replicate z False) = e"
    using rotate_inverted_run [of lo to' z] form by simp
  moreover have "lo < w" using w z by simp
  ultimately show ?thesis
    using lz pc pcw z by (simp add: rotation_of_def lo_def pc_def w_def)
qed

lemma unat_of_nat_u32: "a \<le> 64 \<Longrightarrow> unat (of_nat a :: u32) = a"
  by (simp add: unat_of_nat)

lemma u32_eq_iff: "a \<le> 200 \<Longrightarrow> b \<le> 200 \<Longrightarrow> ((of_nat a :: u32) = of_nat b) = (a = b)"
  by (simp add: word_of_nat_eq_iff take_bit_nat_eq_self)

lemma u32_sum3:
  assumes "a \<le> 64" "b \<le> 64" "c \<le> 64" "w \<le> 64"
  shows "((of_nat a + of_nat b + of_nat c :: u32) = of_nat w) = (a + b + c = w)"
proof -
  have "(of_nat a + of_nat b + of_nat c :: u32) = of_nat (a + b + c)" by simp
  then show ?thesis using assms by (simp only: u32_eq_iff) 
qed

lemma u32_sum2:
  assumes "a \<le> 64" "b \<le> 64" "w \<le> 64"
  shows "((of_nat a + of_nat b :: u32) = of_nat w) = (a + b = w)"
  using u32_sum3 [of a b 0 w] assms by simp

lemma u32_diff: "b \<le> a \<Longrightarrow> (of_nat a - of_nat b :: u32) = of_nat (a - b)"
  by simp

lemma u32_pos: "a \<le> 64 \<Longrightarrow> (0 < (of_nat a :: u32)) = (0 < a)"
  by (simp add: word_less_nat_alt unat_of_nat_u32)

lemma u32_half: "a \<le> 64 \<Longrightarrow> drop_bit 1 (of_nat a :: u32) = of_nat (a div 2)"
  by (rule word_unat_eq_iff [THEN iffD2])
     (simp add: unat_div unat_of_nat drop_bit_eq_div)

lemma nth_bits_of: "i < LENGTH('a) \<Longrightarrow> bits_of (w :: 'a::len word) ! i = bit w i"
  by (simp add: bits_of_def)

lemma length_bits_of [simp]: "length (bits_of (w :: 'a::len word)) = LENGTH('a)"
  by (simp add: bits_of_def)

lemma bits_of_NOT: "bits_of (NOT w) = map Not (bits_of w)"
  by (simp add: bits_of_def bit_not_iff)

lemma True_in_bits_of: "w \<noteq> 0 \<Longrightarrow> True \<in> set (bits_of w)"
proof -
  assume "w \<noteq> 0"
  then obtain n where "bit w n" by (auto simp: bit_eq_iff)
  moreover from this have "n < LENGTH('a)" by (rule bit_imp_le_length)
  ultimately show ?thesis by (force simp: bits_of_def)
qed

lemma False_in_bits_of: "w \<noteq> - 1 \<Longrightarrow> False \<in> set (bits_of w)"
proof -
  assume "w \<noteq> - 1"
  then have "NOT w \<noteq> 0" by (metis bit.compl_zero bit.double_compl)
  then have "True \<in> set (bits_of (NOT w))" by (rule True_in_bits_of)
  then show ?thesis by (auto simp: bits_of_NOT)
qed


lemma horner_bits_of_ucast:
  "(horner_sum of_bool 2 (bits_of (ucast (v :: u64) :: u32)) :: u64) = v AND 0xFFFFFFFF"
proof -
  have m: "(0xFFFFFFFF :: u64) = mask 32" by (simp add: mask_eq_exp_minus_1)
  show ?thesis
    unfolding m
    by (rule bit_word_eqI)
       (auto simp: bit_horner_sum_bit_word_iff bits_of_def bit_ucast_iff bit_and_iff bit_mask_iff)
qed

lemma halves_condition:
  fixes val :: u64
  assumes h: "h \<le> 32"
    and eq: "val AND (push_bit h 1 - 1) = drop_bit h val AND (push_bit h 1 - 1)"
  shows "\<forall>i < h. bit val i = bit val (i + h)"
proof (intro allI impI)
  fix i assume i: "i < h"
  have m: "push_bit h (1 :: u64) - 1 = mask h" by (simp add: mask_eq_exp_minus_1 push_bit_eq_mult)
  from eq have "bit (val AND mask h) i = bit (drop_bit h val AND mask h) i"
    by (simp only: m)
  then show "bit val i = bit val (i + h)"
    using i h by (simp add: bit_and_iff bit_mask_iff bit_drop_bit_eq add.commute)
qed

lemma halves_condition_conv:
  fixes val :: u64
  assumes h: "h \<le> 32"
    and eq: "\<forall>i < h. bit val i = bit val (i + h)"
  shows "val AND (push_bit h 1 - 1) = drop_bit h val AND (push_bit h 1 - 1)"
proof -
  have m: "push_bit h (1 :: u64) - 1 = mask h" by (simp add: mask_eq_exp_minus_1 push_bit_eq_mult)
  show ?thesis unfolding m
    by (rule bit_word_eqI) (use eq in \<open>auto simp: bit_and_iff bit_mask_iff bit_drop_bit_eq add.commute\<close>)
qed

lemma and3_low:
  fixes val :: u64
  assumes "bit val 0" "\<not> bit val (Suc 0)"
  shows "val AND 3 = 1"
proof -
  have m: "(3 :: u64) = mask 2" by (simp add: mask_eq_exp_minus_1)
  show ?thesis unfolding m
    by (rule bit_word_eqI)
       (use assms in \<open>auto simp: bit_and_iff bit_mask_iff bit_1_iff less_2_cases_iff\<close>)
qed

lemma and3_high:
  fixes val :: u64
  assumes "\<not> bit val 0" "bit val (Suc 0)"
  shows "val AND 3 = 2"
proof -
  have m: "(3 :: u64) = mask 2" by (simp add: mask_eq_exp_minus_1)
  show ?thesis unfolding m
    by (rule bit_word_eqI)
       (use assms in \<open>auto simp: bit_and_iff bit_mask_iff bit_2_iff less_2_cases_iff\<close>)
qed

lemma two_bits_cases:
  assumes "length e = 2" "True \<in> set e" "False \<in> set e"
  shows "e = [True, False] \<or> e = [False, True]"
proof -
  from assms(1) obtain a b where "e = [a, b]"
    by (metis One_nat_def Suc_1 length_0_conv length_Suc_conv)
  with assms(2,3) show ?thesis by auto
qed

lemma encode_loop_width2:
  fixes val :: u64
  assumes len: "length e = 2" and k: "0 < k" and bs: "bs = concat (replicate k e)"
    and W: "length bs = W"
    and nz: "True \<in> set e" and no: "False \<in> set e"
    and bits: "\<forall>i < length e. e ! i = bit val i"
  shows "\<exists>r. encode_loop val lz lo tz to' 2 sb fx = Some r \<and> loop_post W bs r"
proof -
  have Wk: "W = k * 2" using W bs len by (simp add: length_concat sum_list_replicate)
  have b0: "e ! 0 = bit val 0" and b1: "e ! 1 = bit val (Suc 0)"
    using bits len by simp_all
  have res: "encode_loop val lz lo tz to' 2 sb fx = Some (Some (0, ucast ((val AND 3) - 1), 0x3C))"
    by (subst encode_loop.simps) simp
  from two_bits_cases [OF len nz no] show ?thesis
  proof
    assume e: "e = [True, False]"
    then have "val AND 3 = 1" using b0 b1 by (intro and3_low) simp_all
    then show ?thesis
      using res e k Wk bs
      by (simp add: loop_post_def decode_pattern_def element_size_def)
  next
    assume e: "e = [False, True]"
    then have "val AND 3 = 2" using b0 b1 by (intro and3_high) simp_all
    then show ?thesis
      using res e k Wk bs
      by (simp add: loop_post_def decode_pattern_def element_size_def)
  qed
qed

lemma width_cases:
  assumes "j \<le> 4"
  shows "2 * 2 ^ Suc j \<in> set [4, 8, 16, 32, 64 :: nat]"
proof -
  from assms consider "j = 0" | "j = 1" | "j = 2" | "j = 3" | "j = 4" by linarith
  then show ?thesis by cases simp_all
qed

lemma imm_s_field:
  assumes w: "w \<in> set [4, 8, 16, 32, 64 :: nat]" and pc: "0 < pc" "pc < w"
  shows "element_size (if w = 64 then 1 else 0)
           (unat ((- of_nat (2 * w) OR (of_nat pc - 1)) AND 0x3f :: u32)) = Some w
         \<and> unat ((- of_nat (2 * w) OR (of_nat pc - 1)) AND 0x3f :: u32) mod w = pc - 1
         \<and> unat ((- of_nat (2 * w) OR (of_nat pc - 1)) AND 0x3f :: u32) < 64"
proof -
  have x: "pc - 1 \<in> set [0..<w - 1]" using pc by auto
  have eq: "(of_nat pc - 1 :: u32) = of_nat (pc - 1)" using pc by simp
  from imm_s_table w x show ?thesis
    unfolding eq Let_def by blast
qed

lemma fixed_halved:
  assumes w: "w \<in> set [4, 8, 16, 32, 64 :: nat]"
  shows "signed_drop_bit 1 (- of_nat (2 * w) :: u32) = - of_nat (2 * (w div 2))"
proof -
  have e: "2 * (w div 2) = w" using w by auto
  from fixed_table w have "signed_drop_bit 1 (- of_nat (2 * w) :: u32) = - of_nat w"
    by (rule bspec)
  then show ?thesis by (simp only: e)
qed

lemma encode_loop_post:
  fixes val :: u64
  assumes j: "j \<le> 5"
    and len: "length e = 2 * 2 ^ j" and k: "0 < k" and bs: "bs = concat (replicate k e)"
    and W: "length bs = W" "W \<le> 64"
    and nz: "True \<in> set e" and no: "False \<in> set e"
    and bits: "\<forall>i < length e. e ! i = bit val i"
  shows "\<exists>r. encode_loop val (of_nat (leading_zeros bs)) (of_nat (leading_zeros (map Not bs)))
                (of_nat (trailing_zeros bs)) (of_nat (trailing_zeros (map Not bs)))
                (of_nat (2 * 2 ^ j)) (of_nat (set_bit_count e)) (- of_nat (2 * (2 * 2 ^ j)))
              = Some r \<and> loop_post W bs r"
  using assms
proof (induction j arbitrary: k e)
  case 0
  then show ?case using encode_loop_width2 [of e k bs W val] by simp
next
  case (Suc j)
  define w :: nat where "w = 2 * 2 ^ Suc j"
  define h :: nat where "h = 2 * 2 ^ j"
  define lz tz lo to' pc where "lz = leading_zeros e" and "tz = trailing_zeros e"
    and "lo = leading_zeros (map Not e)" and "to' = trailing_zeros (map Not e)"
    and "pc = set_bit_count e"
  have j4: "j \<le> 4" using Suc.prems by simp
  have wset: "w \<in> set [4, 8, 16, 32, 64 :: nat]" unfolding w_def using j4 by (rule width_cases)
  have wh: "w = 2 * h" "w div 2 = h" by (simp_all add: w_def h_def)
  have lenw: "length e = w" using Suc.prems by (simp add: w_def)
  have w64: "w \<le> 64" "4 \<le> w" using wset by auto
  have h32: "h \<le> 32" using wh w64 by simp
  obtain k' where k': "k = Suc k'" using Suc.prems by (cases k) simp_all
  have nz: "True \<in> set e" and no: "False \<in> set e" using Suc.prems by simp_all
  have nzN: "True \<in> set (map Not e)" using no by force
  have bsN: "map Not bs = concat (replicate (Suc k') (map Not e))"
    using Suc.prems k' by (simp only: map_Not_concat_replicate)
  have cnt: "leading_zeros bs = lz" "trailing_zeros bs = tz"
      "leading_zeros (map Not bs) = lo" "trailing_zeros (map Not bs) = to'"
    using Suc.prems k' nz nzN bsN
    by (simp_all only: lz_def tz_def lo_def to'_def leading_zeros_periodic trailing_zeros_periodic)
  have bnd: "lz \<le> w" "tz \<le> w" "lo \<le> w" "to' \<le> w"
    unfolding lz_def tz_def lo_def to'_def leading_zeros_def trailing_zeros_def
    using lenw length_takeWhile_le [of Not "rev e"] length_takeWhile_le [of Not e]
      length_takeWhile_le [of Not "rev (map Not e)"] length_takeWhile_le [of Not "map Not e"]
    by simp_all
  have pc: "0 < pc" "pc < w"
    using set_bit_count_pos [OF nz] set_bit_count_less [OF no] by (simp_all add: pc_def lenw)
  have Wkw: "W = k * w" using Suc.prems lenw by (simp add: length_concat sum_list_replicate)
  have wW: "w \<le> W" "W div w = k" using Wkw k' w64 by simp_all
  note fld = imm_s_field [OF wset pc]
  have ne2: "(of_nat w :: u32) \<noteq> 2"
    using u32_eq_iff [of w 2] w64 by simp
  have is64: "((of_nat w :: u32) = 64) = (w = 64)"
    using u32_eq_iff [of w 64] w64 by simp
  have c3: "((of_nat lz + of_nat tz + of_nat pc :: u32) = of_nat w) = (lz + tz + pc = w)"
    using bnd pc w64 by (intro u32_sum3) simp_all
  have c4: "((of_nat lo + of_nat to' + (of_nat w - of_nat pc) :: u32) = of_nat w)
              = (lo + to' + (w - pc) = w)"
    using bnd pc w64 by (simp only: u32_diff [of pc w] less_imp_le) (intro u32_sum3, simp_all)
  have immr: "(if (of_nat lz + of_nat pc :: u32) = of_nat w then 0
               else if 0 < (of_nat lz :: u32) then of_nat w - of_nat tz else of_nat lo)
              = (of_nat (rotation_of w lz tz lo pc) :: u32)"
    using bnd pc w64 u32_sum2 [of lz pc w] u32_pos [of lz] u32_diff [of tz w]
    by (simp add: rotation_of_def)
  have half': "drop_bit 1 (of_nat w :: u32) = of_nat h"
    by (simp only: u32_half [OF w64(1)] wh(2))
  have half: "unat (of_nat h :: u32) = h"
    using h32 by (simp add: unat_of_nat_u32)
  have pch: "drop_bit 1 (of_nat pc :: u32) = of_nat (pc div 2)"
    using pc w64 by (intro u32_half) simp
  have fxh: "signed_drop_bit 1 (- of_nat (2 * w) :: u32) = - of_nat (2 * h)"
    using fixed_halved [OF wset] by (simp only: wh(2))
  have step: "encode_loop val (of_nat lz) (of_nat lo) (of_nat tz) (of_nat to')
                (of_nat w) (of_nat pc) (- of_nat (2 * w))
     = (if lz + tz + pc = w
        then Some (Some (if w = 64 then 1 else 0, of_nat (rotation_of w lz tz lo pc),
                         (- of_nat (2 * w) OR (of_nat pc - 1)) AND 0x3f))
        else if lo + to' + (w - pc) = w
        then Some (Some (if w = 64 then 1 else 0, of_nat (rotation_of w lz tz lo pc),
                         (- of_nat (2 * w) OR (of_nat pc - 1)) AND 0x3f))
        else if val AND (push_bit h 1 - 1) = drop_bit h val AND (push_bit h 1 - 1)
        then encode_loop val (of_nat lz) (of_nat lo) (of_nat tz) (of_nat to')
               (of_nat h) (of_nat (pc div 2)) (- of_nat (2 * h))
        else Some None)"
    apply (subst encode_loop.simps)
    apply (simp only: ne2 if_False Let_def is64 c3 c4 immr half' half pch fxh)
    done
  have goal: "\<exists>r. encode_loop val (of_nat lz) (of_nat lo) (of_nat tz) (of_nat to')
                (of_nat w) (of_nat pc) (- of_nat (2 * w)) = Some r \<and> loop_post W bs r"
  proof (cases "lz + tz + pc = w \<or> lo + to' + (w - pc) = w")
    case True
    have rot: "rotate (rotation_of w lz tz lo pc)
                 (replicate pc True @ replicate (w - pc) False) = e
               \<and> rotation_of w lz tz lo pc < w"
    proof (cases "lz + tz + pc = w")
      case True
      then show ?thesis
        using run_rotation [of e] nz by (simp add: lz_def tz_def lo_def pc_def lenw [symmetric])
    next
      case False
      with \<open>lz + tz + pc = w \<or> lo + to' + (w - pc) = w\<close>
      have "lo + to' + (w - pc) = w" by simp
      with False show ?thesis
        using inverted_run_rotation [of e] nz no
        by (simp add: lz_def tz_def lo_def to'_def pc_def lenw [symmetric])
    qed
    define n :: u32 where "n = (if w = 64 then 1 else 0)"
    define R :: u32 where "R = of_nat (rotation_of w lz tz lo pc)"
    define S :: u32 where "S = (- of_nat (2 * w) OR (of_nat pc - 1)) AND 0x3f"
    have uR: "unat R = rotation_of w lz tz lo pc"
      unfolding R_def using rot w64 by (intro unat_of_nat_u32) simp
    have un: "unat n = (if w = 64 then 1 else 0)" by (simp add: n_def)
    have es: "element_size (unat n) (unat S) = Some w" "unat S mod w = pc - 1" "unat S < 64"
      using fld by (simp_all only: un S_def)
    have "rotate (rotation_of w lz tz lo pc mod w)
            (replicate pc True @ replicate (w - pc) False) = e"
      using rot by simp
    then have dec: "decode_pattern W (unat n) (unat R) (unat S) = Some bs"
      using pc wW Suc.prems(4) by (simp add: decode_pattern_def es uR)
    have post: "loop_post W bs (Some (n, R, S))"
      using dec es(3) uR rot w64 un by (simp add: loop_post_def)
    have "encode_loop val (of_nat lz) (of_nat lo) (of_nat tz) (of_nat to')
            (of_nat w) (of_nat pc) (- of_nat (2 * w)) = Some (Some (n, R, S))"
    proof (cases "lz + tz + pc = w")
      case True
      then show ?thesis by (simp only: step n_def R_def S_def if_True simp_thms)
    next
      case False
      with \<open>lz + tz + pc = w \<or> lo + to' + (w - pc) = w\<close>
      have "lo + to' + (w - pc) = w" by simp
      with False show ?thesis by (simp only: step n_def R_def S_def if_True if_False simp_thms)
    qed
    with post show ?thesis by blast
  next
    case False
    then have n3: "lz + tz + pc \<noteq> w" and n4: "lo + to' + (w - pc) \<noteq> w" by simp_all
    show ?thesis
    proof (cases "val AND (push_bit h 1 - 1) = drop_bit h val AND (push_bit h 1 - 1)")
      case hc: True
      have "\<forall>i < h. bit val i = bit val (i + h)" using h32 hc by (rule halves_condition)
      then have "\<forall>i < h. e ! i = e ! (i + h)"
        using Suc.prems(9) lenw wh(1) by simp
      with lenw wh(1) have ee: "e = take h e @ take h e" by (intro halves_equal) simp_all
      define e' where "e' = take h e"
      have ee': "e = e' @ e'" using ee by (simp add: e'_def)
      have len': "length e' = 2 * 2 ^ j" using lenw wh(1) by (simp add: e'_def h_def)
      have "concat (replicate k e) = concat (replicate (2 * k) e')"
        using arg_cong [OF ee', of "\<lambda>x. concat (replicate k x)"]
        by (simp only: concat_replicate_double)
      then have bs': "bs = concat (replicate (2 * k) e')"
        using Suc.prems(4) by simp
      have sete: "set e = set e'"
        using arg_cong [OF ee', of set] by simp
      have nz': "True \<in> set e'" and no': "False \<in> set e'"
        using nz no by (simp_all only: sete)
      have bits': "\<forall>i < length e'. e' ! i = bit val i"
        using Suc.prems(9) lenw wh(1) len' by (simp add: e'_def h_def)
      have "set_bit_count e = 2 * set_bit_count e'"
        using arg_cong [OF ee', of set_bit_count] by (simp add: set_bit_count_def)
      then have pc': "set_bit_count e' = pc div 2"
        by (simp add: pc_def)
      have "\<exists>r. encode_loop val (of_nat (leading_zeros bs)) (of_nat (leading_zeros (map Not bs)))
                (of_nat (trailing_zeros bs)) (of_nat (trailing_zeros (map Not bs)))
                (of_nat (2 * 2 ^ j)) (of_nat (set_bit_count e')) (- of_nat (2 * (2 * 2 ^ j)))
              = Some r \<and> loop_post W bs r"
        using Suc.prems(1,3,5,6) len' bs' nz' no' bits'
        by (intro Suc.IH) simp_all
      then have "\<exists>r. encode_loop val (of_nat lz) (of_nat lo) (of_nat tz) (of_nat to')
               (of_nat h) (of_nat (pc div 2)) (- of_nat (2 * h)) = Some r \<and> loop_post W bs r"
        by (simp only: cnt pc' h_def)
      then show ?thesis
        using n3 n4 hc by (simp only: step if_True if_False simp_thms)
    next
      case nh: False
      have "encode_loop val (of_nat lz) (of_nat lo) (of_nat tz) (of_nat to')
              (of_nat w) (of_nat pc) (- of_nat (2 * w)) = Some None"
        using n3 n4 nh by (simp only: step if_True if_False simp_thms)
      then show ?thesis by (simp add: loop_post_def)
    qed
  qed
  then show ?case
    using cnt by (simp only: w_def lz_def tz_def lo_def to'_def pc_def) 
qed

lemma small_word_bits:
  fixes x :: u32
  assumes "unat x < 64"
  shows "take_bit 6 x = x"
proof -
  have "x < 2 ^ 6" using assms by (simp add: word_less_nat_alt)
  then have "x AND mask 6 = x" by (rule less_mask_eq)
  then show ?thesis by (simp add: take_bit_eq_mask)
qed

lemma pack_or_eq_add:
  fixes n immr imms :: u32
  assumes r: "unat immr < 64" and s: "unat imms < 64"
  shows "push_bit 12 n OR push_bit 6 immr OR imms = push_bit 12 n + push_bit 6 immr + imms"
proof -
  have s6: "take_bit 6 imms = imms" using s by (rule small_word_bits)
  have r6: "take_bit 6 immr = immr" using r by (rule small_word_bits)
  have d1: "push_bit 12 n AND push_bit 6 immr = 0"
    by (subst r6 [symmetric], rule bit_word_eqI) (auto simp: bit_simps)
  have d2: "(push_bit 12 n + push_bit 6 immr) AND imms = 0"
    unfolding disjunctive_add_eq_or [OF d1]
    by (subst s6 [symmetric], rule bit_word_eqI) (auto simp: bit_simps)
  show ?thesis
    using disjunctive_add_eq_or [OF d1] disjunctive_add_eq_or [OF d2] by (simp add: or.assoc)
qed

lemma pack_fields:
  fixes n immr imms :: u32
  assumes n: "unat n \<le> 1" and r: "unat immr < 64" and s: "unat imms < 64"
  shows "sint (push_bit 12 n OR push_bit 6 immr OR imms)
           = int (4096 * unat n + 64 * unat immr + unat imms)"
proof -
  define t where "t = 4096 * unat n + 64 * unat immr + unat imms"
  have t: "t < 2 ^ 31" using n r s by (simp add: t_def)
  have "push_bit 12 n + push_bit 6 immr + imms = (of_nat t :: u32)"
    by (simp add: t_def push_bit_eq_mult)
  then have eq: "push_bit 12 n OR push_bit 6 immr OR imms = (of_nat t :: u32)"
    using pack_or_eq_add [OF r s] by simp
  have "sint (of_nat t :: u32) = int t"
    using t by (simp add: signed_of_nat signed_take_bit_int_eq_self)
  with eq show ?thesis by (simp add: t_def)
qed

lemma unpack_fields:
  assumes "n \<le> 1" "r < 64" "s < 64"
  shows "(4096 * n + 64 * r + s) div 4096 mod 2 = n"
    and "(4096 * n + 64 * r + s) div 64 mod 64 = r"
    and "(4096 * n + 64 * r + s) mod 64 = (s :: nat)"
proof -
  have e1: "4096 * n + 64 * r + s = (64 * r + s) + n * 4096" by simp
  have e2: "4096 * n + 64 * r + s = s + (r + n * 64) * 64" by simp
  have small: "64 * r + s < 4096" using assms by simp
  show "(4096 * n + 64 * r + s) div 4096 mod 2 = n"
    using assms small by (simp only: e1 div_mult_self1) simp
  show "(4096 * n + 64 * r + s) div 64 mod 64 = r"
    using assms by (simp only: e2 div_mult_self1) simp
  show "(4096 * n + 64 * r + s) mod 64 = s"
    using assms by (simp only: e2 mod_mult_self1) simp
qed

lemma ucast_NOT_down: "(ucast (NOT v :: u64) :: u32) = NOT (ucast v)"
  by (rule bit_word_eqI) (auto simp: bit_ucast_iff bit_not_iff)

lemma loop_result_decodes:
  assumes post: "loop_post W bs (Some (n, immr, imms))"
    and W: "W = (if is_wide then 64 else 32)"
  shows "0 \<le> sint (push_bit 12 n OR push_bit 6 immr OR imms)
         \<and> DecodeLogicalImmediate is_wide (sint (push_bit 12 n OR push_bit 6 immr OR imms))
             = Some (horner_sum of_bool 2 bs)"
proof -
  from post have b: "unat n \<le> 1" "unat immr < 64" "unat imms < 64"
    and d: "decode_pattern W (unat n) (unat immr) (unat imms) = Some bs"
    by (simp_all add: loop_post_def)
  define t where "t = 4096 * unat n + 64 * unat immr + unat imms"
  have p: "sint (push_bit 12 n OR push_bit 6 immr OR imms) = int t"
    unfolding t_def using b by (rule pack_fields)
  have u: "t div 4096 mod 2 = unat n" "t div 64 mod 64 = unat immr" "t mod 64 = unat imms"
    unfolding t_def using b by (rule unpack_fields)+
  have "DecodeLogicalImmediate is_wide (int t) = Some (horner_sum of_bool 2 bs)"
    unfolding DecodeLogicalImmediate_def Let_def
    by (simp only: nat_int u W [symmetric] d) simp
  then show ?thesis by (simp only: p) simp
qed


lemma encode_narrow_total:
  assumes nz: "(ucast val :: u32) \<noteq> 0" and no: "(ucast val :: u32) \<noteq> NOT 0"
  shows "\<exists>r. EncodeLogicalImmediate False val = Some r
           \<and> (0 \<le> r \<longrightarrow> DecodeLogicalImmediate False r = Some (val AND 0xFFFFFFFF))"
proof -
  define v where "v = (ucast val :: u32)"
  define bs where "bs = bits_of v"
  have no': "v \<noteq> - 1" using no by (simp add: v_def)
  have nnz: "NOT v \<noteq> 0" using no' by (metis bit.compl_zero bit.double_compl)
  have val0: "val \<noteq> 0" using nz by auto
  have val1: "val \<noteq> NOT 0" using no ucast_NOT_down [of 0] by auto
  have T: "True \<in> set bs" unfolding bs_def using nz v_def by (intro True_in_bits_of) simp
  have F: "False \<in> set bs" unfolding bs_def using no' by (rule False_in_bits_of)
  have "\<exists>r. encode_loop val (of_nat (leading_zeros bs)) (of_nat (leading_zeros (map Not bs)))
                (of_nat (trailing_zeros bs)) (of_nat (trailing_zeros (map Not bs)))
                (of_nat (2 * 2 ^ 4)) (of_nat (set_bit_count bs)) (- of_nat (2 * (2 * 2 ^ 4)))
              = Some r \<and> loop_post 32 bs r"
    using T F
    by (intro encode_loop_post [where k = 1])
       (simp_all add: bs_def v_def nth_bits_of bit_ucast_iff)
  then obtain r0 where
    r0: "encode_loop val (of_nat (leading_zeros bs)) (of_nat (leading_zeros (map Not bs)))
                (of_nat (trailing_zeros bs)) (of_nat (trailing_zeros (map Not bs)))
                32 (of_nat (set_bit_count bs)) (- 64) = Some r0"
    and post: "loop_post 32 bs r0"
    by auto
  have enc: "EncodeLogicalImmediate False val =
     (case r0 of None \<Rightarrow> Some (- 1)
      | Some (n, imm_r, imm_s) \<Rightarrow> Some (sint (push_bit 12 n OR push_bit 6 imm_r OR imm_s)))"
    using nz no nnz r0 val0 val1
    by (simp add: EncodeLogicalImmediate_def CountLeadingZeros_def CountTrailingZeros_def
        CountSetBits_def builtin_clz_def builtin_ctz_def builtin_popcount_def bits_of_NOT bs_def
        ucast_NOT_down v_def)
  show ?thesis
  proof (cases r0)
    case None
    then show ?thesis using enc by simp
  next
    case (Some t)
    obtain n immr imms where t: "t = (n, immr, imms)" by (cases t)
    from post Some t have "loop_post 32 bs (Some (n, immr, imms))" by simp
    from loop_result_decodes [OF this, of False]
    show ?thesis using enc Some t by (simp add: bs_def v_def horner_bits_of_ucast)
  qed
qed

section \<open>Instruction selection: auxiliary lemmas\<close>

lemma minus_one_u16: "(- 1 :: u16) = 0xFFFF"
  by code_simp

lemma ucast_minus_one_u16: "(ucast (- 1 :: s32) :: u16) = 0xFFFF"
  by code_simp

lemma fast_iff: "((x :: u16) + 1 \<le> 1) = (x = 0 \<or> x = 0xFFFF)"
proof -
  have "(x + 1 \<le> 1) = (x + 1 = 0 \<or> x + 1 = 1)"
    by (metis word_le_less_eq word_less_1)
  also have "\<dots> = (x = 0 \<or> x = - 1)"
    by (metis add.commute add_cancel_right_right add_eq_0_iff2)
  finally show ?thesis by (simp only: minus_one_u16)
qed

lemma ucast_scast_s32: "(ucast (scast (v :: s32) :: u64) :: u32) = v"
  by (rule bit_word_eqI) (auto simp: bit_ucast_iff bit_signed_iff)

lemma not_fast_nonzero:
  assumes "Low16Bits v \<noteq> 0" "Low16Bits v \<noteq> 0xFFFF"
  shows "v \<noteq> 0" "v \<noteq> NOT 0"
  using assms by (auto simp: Low16Bits_def ucast_minus_one_u16)

lemma EncodeLogicalImmediate_narrow_defined:
  assumes "Low16Bits v \<noteq> 0" "Low16Bits v \<noteq> 0xFFFF"
  shows "\<exists>r. EncodeLogicalImmediate False (scast v) = Some r"
  using encode_narrow_total [of "scast v"] not_fast_nonzero [OF assms]
  by (auto simp: ucast_scast_s32)














section \<open>Live intervals: auxiliary lemmas\<close>


lemma chain_ok_Nil [simp]: "chain_ok []"
  by (simp add: chain_ok_def)











lemma ranges_nonempty_Cons [simp]:
  "ranges_nonempty (r # rs) = (GetStart r < GetEnd r \<and> ranges_nonempty rs)"
  by (simp add: ranges_nonempty_def)

lemma ranges_nonempty_Nil [simp]: "ranges_nonempty []"
  by (simp add: ranges_nonempty_def)



















lemma covers_ranges_iff:
  "covers_ranges q rs = (\<exists>r \<in> set rs. GetStart r \<le> q \<and> q < GetEnd r)"
  by (induction rs) auto

lemma split_ranges_partition:
  assumes "ranges_ordered (previous @ rs)" and "rs \<noteq> []" and "p < GetEnd (last rs)"
    and "\<forall>r \<in> set previous. GetEnd r \<le> p"
    and "previous = [] \<longrightarrow> GetStart (hd rs) < p"
  shows "\<exists>mine others. split_ranges p previous rs = Some (mine, others)
           \<and> (\<forall>q. covers_ranges q mine = (covers_ranges q (previous @ rs) \<and> q < p))
           \<and> (\<forall>q. covers_ranges q others = (covers_ranges q (previous @ rs) \<and> p \<le> q))"
  using assms
proof (induction rs arbitrary: previous)
  case Nil
  then show ?case by simp
next
  case (Cons current rest)
  from Cons.prems(1) have later: "\<forall>r \<in> set rest. GetEnd current \<le> GetStart r"
    by (auto simp: ranges_ordered_def sorted_wrt_append)
  show ?case
  proof (cases "p \<ge> GetEnd current")
    case True
    with Cons.prems(3) have ne: "rest \<noteq> []" by auto
    have "\<exists>mine others. split_ranges p (previous @ [current]) rest = Some (mine, others)
           \<and> (\<forall>q. covers_ranges q mine = (covers_ranges q ((previous @ [current]) @ rest) \<and> q < p))
           \<and> (\<forall>q. covers_ranges q others = (covers_ranges q ((previous @ [current]) @ rest) \<and> p \<le> q))"
    proof (rule Cons.IH)
      show "ranges_ordered ((previous @ [current]) @ rest)" using Cons.prems(1) by simp
      show "rest \<noteq> []" by (rule ne)
      show "p < GetEnd (last rest)" using Cons.prems(3) ne by simp
      show "\<forall>r \<in> set (previous @ [current]). GetEnd r \<le> p" using Cons.prems(4) True by simp
      show "previous @ [current] = [] \<longrightarrow> GetStart (hd rest) < p" by simp
    qed
    with True show ?thesis by simp
  next
    case False
    then have pe: "p < GetEnd current" by simp
    show ?thesis
    proof (cases "p \<le> GetStart current")
      case True
      with Cons.prems(5) have pne: "previous \<noteq> []" by auto
      have s: "split_ranges p previous (current # rest) = Some (previous, current # rest)"
        using pe True pne by simp
      have "covers_ranges q previous = (covers_ranges q (previous @ current # rest) \<and> q < p)" for q
        using Cons.prems(4) later pe True by (fastforce simp: covers_ranges_iff)
      moreover have "covers_ranges q (current # rest)
           = (covers_ranges q (previous @ current # rest) \<and> p \<le> q)" for q
        using Cons.prems(4) later pe True by (fastforce simp: covers_ranges_iff)
      ultimately show ?thesis using s by blast
    next
      case inside: False
      then have sp: "GetStart current < p" by simp
      have s: "split_ranges p previous (current # rest)
                 = Some (previous @ [\<lparr>GetStart = GetStart current, GetEnd = p\<rparr>],
                         current\<lparr>GetStart := p\<rparr> # rest)"
        using pe sp by (simp add: NewLiveRange_def)
      have "covers_ranges q (previous @ [\<lparr>GetStart = GetStart current, GetEnd = p\<rparr>])
              = (covers_ranges q (previous @ current # rest) \<and> q < p)" for q
        using Cons.prems(4) later pe sp by (fastforce simp: covers_ranges_iff)
      moreover have "covers_ranges q (current\<lparr>GetStart := p\<rparr> # rest)
           = (covers_ranges q (previous @ current # rest) \<and> p \<le> q)" for q
        using Cons.prems(4) later pe sp by (fastforce simp: covers_ranges_iff)
      ultimately show ?thesis using s by blast
    qed
  qed
qed

lemma ranges_ordered_Cons:
  "ranges_ordered (r # rs) = ((\<forall>b \<in> set rs. GetEnd r \<le> GetStart b) \<and> ranges_ordered rs)"
  by (simp add: ranges_ordered_def)

lemma ranges_nonempty_iff: "ranges_nonempty rs = (\<forall>r \<in> set rs. GetStart r < GetEnd r)"
  by (simp add: ranges_nonempty_def list_all_iff)

lemma first_start_least:
  "ranges_nonempty (r # rs) \<Longrightarrow> ranges_ordered (r # rs) \<Longrightarrow> b \<in> set (r # rs)
     \<Longrightarrow> GetStart r \<le> GetStart b"
  by (auto simp: ranges_ordered_Cons ranges_nonempty_iff)

lemma before_no_common:
  assumes "GetEnd m \<le> s" and "\<forall>b \<in> set other. s \<le> GetStart b"
    and "GetStart m < GetEnd m"
  shows "no_common [m] other"
  using assms by (fastforce simp: no_common_def covers_ranges_iff IntersectsWith_def)

lemma after_no_common:
  assumes "GetEnd m \<le> s" and "\<forall>b \<in> set my. s \<le> GetStart b"
    and "GetStart m < GetEnd m"
  shows "no_common my [m]"
  using assms by (fastforce simp: no_common_def covers_ranges_iff IntersectsWith_def)

lemma no_common_Cons_left:
  "no_common (m # ms) other = (no_common [m] other \<and> no_common ms other)"
  by (auto simp: no_common_def covers_ranges_iff)

lemma no_common_Cons_right:
  "no_common my (m # ms) = (no_common my [m] \<and> no_common my ms)"
  by (auto simp: no_common_def covers_ranges_iff)

lemma first_common_Cons_left:
  "no_common [m] other \<Longrightarrow> first_common (m # ms) other q = first_common ms other q"
  by (auto simp: no_common_def first_common_def covers_ranges_iff)

lemma first_common_Cons_right:
  "no_common my [m] \<Longrightarrow> first_common my (m # ms) q = first_common my ms q"
  by (auto simp: no_common_def first_common_def covers_ranges_iff)

lemma intersecting_first_common:
  assumes "IntersectsWith m o'" and "ranges_nonempty (m # ms)" and "ranges_ordered (m # ms)"
    and "ranges_nonempty (o' # os)" and "ranges_ordered (o' # os)"
  shows "first_common (m # ms) (o' # os) (max (GetStart m) (GetStart o'))"
proof -
  have m: "GetStart m < GetEnd m" and o: "GetStart o' < GetEnd o'" using assms(2,4) by simp_all
  have lm: "\<forall>b \<in> set (m # ms). GetStart m \<le> GetStart b"
    using first_start_least [OF assms(2,3)] by blast
  have lo: "\<forall>b \<in> set (o' # os). GetStart o' \<le> GetStart b"
    using first_start_least [OF assms(4,5)] by blast
  have "covers_ranges (max (GetStart m) (GetStart o')) (m # ms)"
    using assms(1) m o by (auto simp: IntersectsWith_def max_def)
  moreover have "covers_ranges (max (GetStart m) (GetStart o')) (o' # os)"
    using assms(1) m o by (auto simp: IntersectsWith_def max_def)
  moreover have "max (GetStart m) (GetStart o') \<le> q'"
    if "covers_ranges q' (m # ms) \<and> covers_ranges q' (o' # os)" for q'
    using that lm lo unfolding covers_ranges_iff by (meson le_trans max.bounded_iff)
  ultimately show ?thesis unfolding first_common_def by blast
qed

lemma sweep_correct:
  "ranges_nonempty my \<Longrightarrow> ranges_ordered my \<Longrightarrow> ranges_nonempty other \<Longrightarrow> ranges_ordered other
     \<Longrightarrow> my \<noteq> [] \<Longrightarrow> other \<noteq> []
     \<Longrightarrow> (\<exists>q. sweep my other = Some (Lifetime q) \<and> first_common my other q)
         \<or> (sweep my other = Some kNoLifetime \<and> no_common my other)"
proof (induction my other rule: sweep.induct)
  case (1 other)
  then show ?case by simp
next
  case (2 v va)
  then show ?case by simp
next
  case (3 m ms o' os)
  have m: "GetStart m < GetEnd m" and o: "GetStart o' < GetEnd o'" using "3.prems" by simp_all
  have lm: "\<forall>b \<in> set (m # ms). GetStart m \<le> GetStart b"
    using first_start_least "3.prems"(1,2) by blast
  have lo: "\<forall>b \<in> set (o' # os). GetStart o' \<le> GetStart b"
    using first_start_least "3.prems"(3,4) by blast
  show ?case
  proof (cases "IntersectsWith m o'")
    case True
    with "3.prems" have "first_common (m # ms) (o' # os) (max (GetStart m) (GetStart o'))"
      by (intro intersecting_first_common)
    with True show ?thesis by simp
  next
    case False
    show ?thesis
    proof (cases "IsBefore m o'")
      case True
      then have "GetEnd m \<le> GetStart o'" by (simp add: IsBefore_def)
      then have nc: "no_common [m] (o' # os)" using lo m by (rule before_no_common)
      show ?thesis
      proof (cases "ms = []")
        case True
        with \<open>IsBefore m o'\<close> False nc show ?thesis by simp
      next
        case ne: False
        have "(\<exists>q. sweep ms (o' # os) = Some (Lifetime q) \<and> first_common ms (o' # os) q)
         \<or> (sweep ms (o' # os) = Some kNoLifetime \<and> no_common ms (o' # os))"
          using False True ne "3.prems" by (intro "3.IH"(1)) (simp_all add: ranges_ordered_Cons)
        then show ?thesis
          using False True ne nc
          by (simp add: first_common_Cons_left no_common_Cons_left [of m ms])
      qed
    next
      case nb: False
      from False nb m o have ob: "IsBefore o' m"
        by (auto simp: IntersectsWith_def IsBefore_def)
      then have "GetEnd o' \<le> GetStart m" by (simp add: IsBefore_def)
      then have nc: "no_common (m # ms) [o']" using lm o by (rule after_no_common)
      show ?thesis
      proof (cases "os = []")
        case True
        with False nb ob nc show ?thesis by simp
      next
        case ne: False
        have "(\<exists>q. sweep (m # ms) os = Some (Lifetime q) \<and> first_common (m # ms) os q)
         \<or> (sweep (m # ms) os = Some kNoLifetime \<and> no_common (m # ms) os)"
          using False nb ob ne "3.prems" by (intro "3.IH"(2)) (simp_all add: ranges_ordered_Cons)
        then show ?thesis
          using False nb ob ne nc
          by (simp add: first_common_Cons_right no_common_Cons_right [of "m # ms" o' os])
      qed
    qed
  qed
qed

lemma skip_to_start_split:
  "\<exists>pre. rs = pre @ skip_to_start s rs \<and> (\<forall>r \<in> set pre. GetStart r < s)"
proof (induction rs)
  case Nil
  then show ?case by simp
next
  case (Cons r rs)
  then obtain pre where p: "rs = pre @ skip_to_start s rs" "\<forall>r \<in> set pre. GetStart r < s"
    by blast
  show ?case
  proof (cases "GetStart r \<ge> s")
    case True
    then show ?thesis by (intro exI [of _ "[]"]) simp
  next
    case False
    with p show ?thesis by (intro exI [of _ "r # pre"]) auto
  qed
qed

lemma no_common_append_left:
  "no_common (xs @ ys) other = (no_common xs other \<and> no_common ys other)"
  by (auto simp: no_common_def covers_ranges_iff)

lemma first_common_append_left:
  "no_common xs other \<Longrightarrow> first_common (xs @ ys) other q = first_common ys other q"
  by (auto simp: no_common_def first_common_def covers_ranges_iff)

lemma no_common_Nil [simp]: "no_common [] other"
  by (simp add: no_common_def)

section \<open>The graph builder: auxiliary lemmas\<close>

lemma extends_refl [simp]: "extends b b"
  by (simp add: extends_def)

lemma extends_trans: "extends a b \<Longrightarrow> extends b c \<Longrightarrow> extends a c"
  by (auto simp: extends_def)

lemma AddInstruction_extends:
  "AddInstruction blk i b = Some b' \<Longrightarrow> extends b b'"
  by (auto simp: AddInstruction_def extends_def split: option.splits if_splits)

lemma AddInstruction_defined:
  "a < length (block_arena b) \<Longrightarrow> \<exists>b'. AddInstruction (Some a) i b = Some b'"
  by (simp add: AddInstruction_def)

lemma AddSuccessor_extends:
  "AddSuccessor blk s b = Some b' \<Longrightarrow> extends b b'"
  by (auto simp: AddSuccessor_def extends_def split: option.splits if_splits)

lemma AddSuccessor_defined:
  "a < length (block_arena b) \<Longrightarrow> \<exists>b'. AddSuccessor (Some a) s b = Some b'"
  by (simp add: AddSuccessor_def)

lemma NewBasicBlock_extends:
  "NewBasicBlock b = (blk, b') \<Longrightarrow> extends b b'"
  by (auto simp: NewBasicBlock_def extends_def)

lemma PutBlock_extends:
  "PutBlock index blk b = Some b' \<Longrightarrow> extends b b'"
  by (auto simp: PutBlock_def extends_def split: if_splits)

lemma PutBlock_defined:
  "0 \<le> index \<Longrightarrow> index < int (length (branch_targets b)) \<Longrightarrow> \<exists>b'. PutBlock index blk b = Some b'"
  by (simp add: PutBlock_def)

lemma ensure_block_defined:
  assumes "0 \<le> index" and "index < int (length (branch_targets b))"
  shows "\<exists>b'. ensure_block index b = Some b' \<and> extends b b'"
proof (cases "branch_targets b ! nat index")
  case None
  obtain blk b1 where n: "NewBasicBlock b = (blk, b1)" by (cases "NewBasicBlock b")
  then have e1: "extends b b1" by (rule NewBasicBlock_extends)
  with assms have "index < int (length (branch_targets b1))" by (simp add: extends_def)
  with assms(1) obtain b2 where p: "PutBlock index blk b1 = Some b2"
    using PutBlock_defined by blast
  then have "extends b1 b2" by (rule PutBlock_extends)
  with e1 have "extends b b2" by (rule extends_trans)
  moreover have "ensure_block index b = Some b2"
    using assms None n p by (simp add: ensure_block_def FindBlockStartingAt_def)
  ultimately show ?thesis by blast
next
  case (Some a)
  with assms show ?thesis by (simp add: ensure_block_def FindBlockStartingAt_def)
qed

lemma code_units_Cons [simp]:
  "code_units (i # rest) = SizeInCodeUnits i + code_units rest"
  by (simp add: code_units_def)

lemma code_units_Nil [simp]: "code_units [] = 0"
  by (simp add: code_units_def)

lemma code_units_append [simp]: "code_units (xs @ ys) = code_units xs + code_units ys"
  by (simp add: code_units_def)

lemma code_units_pos:
  "branches_in_range off n code \<Longrightarrow> code \<noteq> [] \<Longrightarrow> 0 < code_units code"
  by (cases code) auto

lemma branch_targets_loop_defined:
  "branches_in_range off n code \<Longrightarrow> length (branch_targets b) = n \<Longrightarrow> 0 \<le> off
     \<Longrightarrow> off + int (code_units code) = int n
     \<Longrightarrow> \<exists>b'. branch_targets_loop off code b = Some b' \<and> extends b b'"
proof (induction code arbitrary: off b)
  case Nil
  then show ?case by simp
next
  case (Cons i rest)
  let ?next = "off + int (SizeInCodeUnits i)"
  from Cons.prems(1) have sz: "0 < SizeInCodeUnits i" and r: "branches_in_range ?next n rest"
    by simp_all
  have step: "\<exists>b'. branch_targets_loop ?next rest c = Some b' \<and> extends c b'"
    if "extends b c" for c
  proof (rule Cons.IH [OF r])
    show "length (branch_targets c) = n" using that Cons.prems(2) by (simp add: extends_def)
    show "0 \<le> ?next" using Cons.prems(3) by simp
    show "?next + int (code_units rest) = int n" using Cons.prems(4) by simp
  qed
  show ?case
  proof (cases "IsBranch i")
    case False
    with sz step [of b] show ?thesis by simp
  next
    case True
    with Cons.prems(1) have t: "0 \<le> GetTargetOffset i + off" "GetTargetOffset i + off < int n"
      by simp_all
    with Cons.prems(2) obtain b1 where b1: "ensure_block (GetTargetOffset i + off) b = Some b1"
      and e1: "extends b b1"
      using ensure_block_defined [of "GetTargetOffset i + off" b] by auto
    have "\<exists>b2. (if rest \<noteq> [] then ensure_block ?next b1 else Some b1) = Some b2 \<and> extends b1 b2"
    proof (cases "rest = []")
      case True
      then show ?thesis by simp
    next
      case False
      with r have "0 < code_units rest" by (rule code_units_pos)
      with Cons.prems(3,4) have "0 \<le> ?next" "?next < int n" by simp_all
      moreover from e1 Cons.prems(2) have "length (branch_targets b1) = n"
        by (simp add: extends_def)
      ultimately show ?thesis using False ensure_block_defined [of ?next b1] by simp
    qed
    then obtain b2 where b2: "(if rest \<noteq> [] then ensure_block ?next b1 else Some b1) = Some b2"
      and e2: "extends b1 b2" by blast
    from e1 e2 have e: "extends b b2" by (rule extends_trans)
    from step [OF e] obtain b' where l: "branch_targets_loop ?next rest b2 = Some b'"
      and e3: "extends b2 b'" by blast
    from e e3 have "extends b b'" by (rule extends_trans)
    moreover have "branch_targets_loop off (i # rest) b = Some b'"
      using sz True b1 b2 l by simp
    ultimately show ?thesis by blast
  qed
qed

lemma ComputeBranchTargets_defined:
  assumes "well_formed_code code" and "entry_block b = Some e" and "e < length (block_arena b)"
  shows "\<exists>b'. ComputeBranchTargets code b = Some b' \<and> length (block_arena b) \<le> length (block_arena b')
           \<and> entry_block b' = entry_block b \<and> exit_block b' = exit_block b
           \<and> locals b' = locals b \<and> dex_compilation_unit b' = dex_compilation_unit b"
proof -
  let ?n = "code_units code"
  from assms(1) have ne: "code \<noteq> []" and r: "branches_in_range 0 ?n code"
    by (simp_all add: well_formed_code_def)
  then have pos: "0 < ?n" by (intro code_units_pos)
  define b0 where "b0 = b\<lparr>branch_targets := SetSize ?n (branch_targets b)\<rparr>"
  have len0: "length (branch_targets b0) = ?n"
    by (simp add: b0_def SetSize_def)
  have f0: "entry_block b0 = Some e" "length (block_arena b0) = length (block_arena b)"
    "exit_block b0 = exit_block b" "locals b0 = locals b"
    "dex_compilation_unit b0 = dex_compilation_unit b"
    using assms(2) by (simp_all add: b0_def)
  obtain blk b1 where n: "NewBasicBlock b0 = (blk, b1)" by (cases "NewBasicBlock b0")
  then have e1: "extends b0 b1" by (rule NewBasicBlock_extends)
  with len0 pos obtain b2 where p: "PutBlock 0 blk b1 = Some b2"
    using PutBlock_defined [of 0 b1 blk] by (auto simp: extends_def)
  then have e2: "extends b1 b2" by (rule PutBlock_extends)
  from e1 e2 have e02: "extends b0 b2" by (rule extends_trans)
  with f0 assms(3) have "entry_block b2 = Some e" "e < length (block_arena b2)"
    by (simp_all add: extends_def)
  then obtain b3 where s: "AddSuccessor (entry_block b2) blk b2 = Some b3"
    using AddSuccessor_defined [of e b2 blk] by auto
  then have e3: "extends b2 b3" by (rule AddSuccessor_extends)
  with e02 have e03: "extends b0 b3" by (rule extends_trans)
  with len0 have "length (branch_targets b3) = ?n" by (simp add: extends_def)
  with r obtain b' where l: "branch_targets_loop 0 code b3 = Some b'" and e4: "extends b3 b'"
    using branch_targets_loop_defined [of 0 ?n code b3] by auto
  from e03 e4 have "extends b0 b'" by (rule extends_trans)
  with f0 assms(2) have "length (block_arena b) \<le> length (block_arena b')
           \<and> entry_block b' = entry_block b \<and> exit_block b' = exit_block b
           \<and> locals b' = locals b \<and> dex_compilation_unit b' = dex_compilation_unit b"
    by (simp add: extends_def)
  moreover have "ComputeBranchTargets code b = Some b'"
    using n p s l by (simp add: ComputeBranchTargets_def b0_def [symmetric] Let_def)
  ultimately show ?thesis by blast
qed

lemma fold_AddInstruction_defined:
  "a < length (block_arena b)
     \<Longrightarrow> \<exists>b'. fold (\<lambda>i r. Option.bind r (AddInstruction (Some a) (f i))) xs (Some b) = Some b'
            \<and> extends b b'"
proof (induction xs arbitrary: b)
  case Nil
  then show ?case by simp
next
  case (Cons x xs)
  from Cons.prems obtain b1 where a: "AddInstruction (Some a) (f x) b = Some b1"
    using AddInstruction_defined by blast
  then have e: "extends b b1" by (rule AddInstruction_extends)
  with Cons.prems have "a < length (block_arena b1)" by (simp add: extends_def)
  from Cons.IH [OF this] obtain b' where
    f: "fold (\<lambda>i r. Option.bind r (AddInstruction (Some a) (f i))) xs (Some b1) = Some b'"
    and e': "extends b1 b'" by blast
  from e e' have "extends b b'" by (rule extends_trans)
  with a f show ?case by simp
qed

lemma InitializeLocals_defined:
  assumes "entry_block b = Some e" and "e < length (block_arena b)"
  shows "\<exists>b'. InitializeLocals count b = Some b' \<and> length (block_arena b) \<le> length (block_arena b')
           \<and> entry_block b' = entry_block b \<and> exit_block b' = exit_block b
           \<and> dex_compilation_unit b' = dex_compilation_unit b
           \<and> length (locals b') = count"
proof -
  define b0 where "b0 = b\<lparr>graph := (graph b)\<lparr>number_of_vregs := count\<rparr>,
                locals := map HLocal [0..<count]\<rparr>"
  have "e < length (block_arena b0)" using assms(2) by (simp add: b0_def)
  from fold_AddInstruction_defined [OF this, of HLocal "[0..<count]"] obtain b' where
    f: "fold (\<lambda>i r. Option.bind r (AddInstruction (Some e) (HLocal i))) [0..<count] (Some b0) = Some b'"
    and e: "extends b0 b'" by blast
  from f have "InitializeLocals count b = Some b'"
    by (simp add: InitializeLocals_def assms(1) b0_def)
  moreover from e have "length (block_arena b) \<le> length (block_arena b')" "entry_block b' = entry_block b"
    "exit_block b' = exit_block b" "dex_compilation_unit b' = dex_compilation_unit b"
    "length (locals b') = count"
    by (simp_all add: extends_def b0_def)
  ultimately show ?thesis by blast
qed

lemma graph_setup_defined:
  assumes "well_formed_code (insns code_item)"
  shows "\<exists>b' e. graph_setup code_item b = Some b' \<and> entry_block b' = Some e
           \<and> e < length (block_arena b') \<and> dex_compilation_unit b' = dex_compilation_unit b
           \<and> length (locals b') = registers_size code_item"
proof -
  define entry where "entry = length (block_arena b)"
  define b1 where "b1 = b\<lparr>graph := NewHGraph,
       block_arena := block_arena b @ [\<lparr>instructions = [], successors = []\<rparr>]\<rparr>"
  define b2 where "b2 = AddBlock entry (b1\<lparr>entry_block := Some entry\<rparr>)"
  define b3 where "b3 = b2\<lparr>block_arena := block_arena b2 @ [\<lparr>instructions = [], successors = []\<rparr>]\<rparr>"
  define b4 where "b4 = b3\<lparr>exit_block := Some (length (block_arena b2))\<rparr>"
  define b5 where "b5 = b4\<lparr>graph := (graph b4)\<lparr>graph_entry_block := entry_block b4,
                                  graph_exit_block := exit_block b4\<rparr>\<rparr>"
  have f5: "entry_block b5 = Some entry" "entry < length (block_arena b5)"
    "dex_compilation_unit b5 = dex_compilation_unit b"
    by (simp_all add: b5_def b4_def b3_def b2_def b1_def AddBlock_def entry_def)
  from InitializeLocals_defined [OF f5(1,2), of "registers_size code_item"]
  obtain b6 where i: "InitializeLocals (registers_size code_item) b5 = Some b6"
    and f6: "length (block_arena b5) \<le> length (block_arena b6)" "entry_block b6 = entry_block b5"
      "dex_compilation_unit b6 = dex_compilation_unit b5"
      "length (locals b6) = registers_size code_item"
    by blast
  define b7 where "b7 = b6\<lparr>graph := (graph b6)\<lparr>maximum_number_of_out_vregs :=
                   max (maximum_number_of_out_vregs (graph b6)) (outs_size code_item)\<rparr>\<rparr>"
  have f7: "entry_block b7 = Some entry" "entry < length (block_arena b7)"
    using f5 f6 by (simp_all add: b7_def)
  from ComputeBranchTargets_defined [OF assms f7]
  obtain b' where c: "ComputeBranchTargets (insns code_item) b7 = Some b'"
    and e: "length (block_arena b7) \<le> length (block_arena b')" "entry_block b' = entry_block b7"
      "locals b' = locals b7" "dex_compilation_unit b' = dex_compilation_unit b7" by blast
  have "graph_setup code_item b = Some b'"
    using i c
    by (simp add: graph_setup_def NewBasicBlock_def Let_def b7_def b5_def b4_def b3_def b2_def
        b1_def entry_def)
  moreover from e f7 f6 f5 have "entry_block b' = Some entry" "entry < length (block_arena b')"
    "dex_compilation_unit b' = dex_compilation_unit b"
    "length (locals b') = registers_size code_item"
    by (simp_all add: b7_def)
  ultimately show ?thesis by blast
qed

lemma bind_parameter_defined:
  assumes "entry_block b = Some e" and "e < length (block_arena b)" and "0 \<le> li"
    and "li < int (length (locals b))"
  shows "\<exists>b'. bind_parameter p li b = Some b' \<and> extends b b'"
proof -
  from assms(2) obtain b1 where a: "AddInstruction (Some e) (HParameterValue p) b = Some b1"
    using AddInstruction_defined by blast
  then have e1: "extends b b1" by (rule AddInstruction_extends)
  with assms have l: "GetLocalAt li b1 = Some (locals b1 ! nat li)" and en: "entry_block b1 = Some e"
    and "e < length (block_arena b1)"
    by (simp_all add: GetLocalAt_def extends_def)
  then obtain b2 where
    a2: "AddInstruction (Some e) (HStoreLocal (locals b1 ! nat li) (HParameterValue p)) b1 = Some b2"
    using AddInstruction_defined by blast
  then have "extends b1 b2" by (rule AddInstruction_extends)
  with e1 have "extends b b2" by (rule extends_trans)
  moreover have "bind_parameter p li b = Some b2"
    using a l en a2 by (simp add: bind_parameter_def assms(1))
  ultimately show ?thesis by blast
qed

lemma parameters_loop_bails:
  "k < n \<Longrightarrow> pos + k < length shorty \<Longrightarrow> wide_or_float (shorty ! (pos + k))
     \<Longrightarrow> entry_block b = Some e \<Longrightarrow> e < length (block_arena b) \<Longrightarrow> 0 \<le> li
     \<Longrightarrow> li + int k \<le> int (length (locals b))
     \<Longrightarrow> \<exists>b'. parameters_loop n shorty pos p li b = Some (False, b')"
proof (induction n arbitrary: k pos p li b)
  case 0
  then show ?case by simp
next
  case (Suc n)
  from Suc.prems(2) have at: "shorty_at shorty pos = Some (shorty ! pos)"
    by (simp add: shorty_at_def)
  show ?case
  proof (cases "wide_or_float (shorty ! pos)")
    case True
    with at show ?thesis by (auto simp: wide_or_float_def)
  next
    case False
    with Suc.prems(3) have "k \<noteq> 0" by (cases k) auto
    then obtain k' where k: "k = Suc k'" by (cases k) auto
    with Suc.prems(6,7) have "li < int (length (locals b))" by simp
    from bind_parameter_defined [OF Suc.prems(4,5,6) this, of p]
    obtain b1 where bp: "bind_parameter p li b = Some b1" and e: "extends b b1" by blast
    have "\<exists>b'. parameters_loop n shorty (pos + 1) (p + 1) (li + 1) b1 = Some (False, b')"
    proof (rule Suc.IH [of k'])
      show "k' < n" using Suc.prems(1) k by simp
      show "pos + 1 + k' < length shorty" using Suc.prems(2) k by simp
      show "wide_or_float (shorty ! (pos + 1 + k'))" using Suc.prems(3) k by simp
      show "entry_block b1 = Some e" using e Suc.prems(4) by (simp add: extends_def)
      show "e < length (block_arena b1)" using e Suc.prems(5) by (simp add: extends_def)
      show "0 \<le> li + 1" using Suc.prems(6) by simp
      show "li + 1 + int k' \<le> int (length (locals b1))"
        using e Suc.prems(7) k by (simp add: extends_def)
    qed
    with at False bp show ?thesis by (auto simp: wide_or_float_def)
  qed
qed

lemma InitializeParameters_bails:
  assumes "dex_compilation_unit b = Some unit"
    and "k < length (tl (GetShorty unit))" and "wide_or_float (tl (GetShorty unit) ! k)"
    and "(if IsStatic unit then k else k + 1) < n" and "n \<le> length (locals b)"
    and "entry_block b = Some e" and "e < length (block_arena b)"
  shows "\<exists>b'. InitializeParameters n b = Some (False, b')"
proof -
  define b0 where "b0 = b\<lparr>graph := (graph b)\<lparr>number_of_in_vregs := n\<rparr>\<rparr>"
  define li where "li = int (length (locals b0)) - int n"
  have f0: "entry_block b0 = Some e" "e < length (block_arena b0)" "locals b0 = locals b"
    using assms(6,7) by (simp_all add: b0_def)
  from assms(2) have ne: "GetShorty unit \<noteq> []" by auto
  then have sk: "1 + k < length (GetShorty unit)"
    "tl (GetShorty unit) ! k = GetShorty unit ! (1 + k)"
    using assms(2) by (simp_all add: nth_tl)
  have li: "0 \<le> li" using assms(5) by (simp add: li_def f0)
  show ?thesis
  proof (cases "IsStatic unit")
    case True
    with assms(4) have "k < n" by simp
    moreover have "li + int k \<le> int (length (locals b0))" using \<open>k < n\<close> by (simp add: li_def)
    ultimately have "\<exists>b'. parameters_loop n (GetShorty unit) 1 0 li b0 = Some (False, b')"
      using sk assms(3) f0 li by (intro parameters_loop_bails [of k]) simp_all
    with True show ?thesis
      by (simp add: InitializeParameters_def assms(1) Let_def b0_def [symmetric] li_def [symmetric])
  next
    case False
    with assms(4) have kn: "k + 1 < n" by simp
    then have "li < int (length (locals b0))" by (simp add: li_def)
    from bind_parameter_defined [OF f0(1,2) li this, of 0]
    obtain b1 where bp: "bind_parameter 0 li b0 = Some b1" and e: "extends b0 b1" by blast
    have "\<exists>b'. parameters_loop (n - 1) (GetShorty unit) 1 1 (li + 1) b1 = Some (False, b')"
    proof (rule parameters_loop_bails [of k])
      show "k < n - 1" using kn by simp
      show "1 + k < length (GetShorty unit)" by (rule sk(1))
      show "wide_or_float (GetShorty unit ! (1 + k))" using assms(3) sk(2) by simp
      show "entry_block b1 = Some e" using e f0 by (simp add: extends_def)
      show "e < length (block_arena b1)" using e f0 by (simp add: extends_def)
      show "0 \<le> li + 1" using li by simp
      show "li + 1 + int k \<le> int (length (locals b1))"
        using e kn by (simp add: extends_def li_def)
    qed
    with False bp show ?thesis
      by (simp add: InitializeParameters_def assms(1) Let_def b0_def [symmetric] li_def [symmetric])
  qed
qed

lemma build_loop_append:
  "build_loop off (pre @ rest) b =
     (case build_loop off pre b of
        None \<Rightarrow> None
      | Some None \<Rightarrow> Some None
      | Some (Some b') \<Rightarrow> build_loop (off + int (code_units pre)) rest b')"
proof (induction pre arbitrary: off b)
  case Nil
  then show ?case by simp
next
  case (Cons i pre)
  show ?case
  proof (cases "MaybeUpdateCurrentBlock off b")
    case None
    then show ?thesis by simp
  next
    case (Some b1)
    show ?thesis
    proof (cases "AnalyzeDexInstruction i off b1")
      case None
      with Some show ?thesis by simp
    next
      case (Some r)
      obtain ok b2 where r: "r = (ok, b2)" by (cases r)
      show ?thesis
        using \<open>MaybeUpdateCurrentBlock off b = Some b1\<close> Some r
          Cons.IH [of "off + int (SizeInCodeUnits i)" b2]
        by (auto simp: add.assoc split: option.splits)
    qed
  qed
qed

lemma build_loop_no_rule:
  assumes "MaybeUpdateCurrentBlock off b = Some b'" and "current_block b' \<noteq> None"
    and "Opcode i = OTHER c"
  shows "build_loop off (i # rest) b = Some None"
  using assms by (auto simp: AnalyzeDexInstruction_def)

lemma build_loop_dead:
  "current_block b = None \<Longrightarrow> no_block_starts off dead b
     \<Longrightarrow> build_loop off (dead @ rest) b = build_loop (off + int (code_units dead)) rest b"
proof (induction dead arbitrary: off)
  case Nil
  then show ?case by simp
next
  case (Cons i dead)
  from Cons.prems(2) have m: "MaybeUpdateCurrentBlock off b = Some b"
    by (simp add: MaybeUpdateCurrentBlock_def)
  from Cons.prems(1) have a: "AnalyzeDexInstruction i off b = Some (True, b)"
    by (simp add: AnalyzeDexInstruction_def)
  from Cons.prems(2) have sz: "0 < SizeInCodeUnits i"
    and r: "no_block_starts (off + int (SizeInCodeUnits i)) dead b" by simp_all
  from Cons.IH [OF Cons.prems(1) r] m a sz show ?case by (simp add: add.assoc)
qed

section \<open>Properties of the logical-immediate encoder\<close>

text \<open>
  C9. In 64-bit mode \<open>EncodeLogicalImmediate\<close> encodes \<open>0x00000000FFFFFFFF\<close> as one
  contiguous run (N = 1, rotation 0, run length field 31, that is \<open>0x101F\<close>), encodes
  \<open>0x5555555555555555\<close> through the half-width recursion down to width 2 (N = 0,
  rotation 0, size field \<open>0x3C\<close>), and returns -1 for \<open>0x0123456789ABCDEF\<close>.
\<close>

theorem EncodeLogicalImmediate_examples:
  "EncodeLogicalImmediate True 0x00000000FFFFFFFF = Some 0x101F
   \<and> EncodeLogicalImmediate True 0x5555555555555555 = Some 0x3C
   \<and> EncodeLogicalImmediate True 0x0123456789ABCDEF = Some (- 1)"
  by code_simp



section \<open>Properties of constant materialization\<close>

text \<open>
  C7. For an integer destination register (not the stack pointer, not the zero register)
  \<open>LoadConstantNoClobber\<close> splits the value into 16-bit halves. When either half is
  all-zero or all-ones it emits exactly one instruction, which is a plain move or an invert
  from the zero register when both halves are equal. Otherwise the 32-bit
  logical-immediate encoder is defined on the value; when it succeeds exactly one ORR with
  that immediate from the zero register is emitted, and when it fails exactly two
  instructions are emitted: a move of the low half, then an insert of the high half.
\<close>

theorem LoadConstantNoClobber_integer:
  assumes "\<not> IsFloat r_dest" "GetReg r_dest \<noteq> rwsp K" "GetReg r_dest \<noteq> rwzr K"
  shows
    "(Low16Bits val = 0 \<or> Low16Bits val = 0xFFFF \<or> High16Bits val = 0 \<or> High16Bits val = 0xFFFF \<longrightarrow>
        (\<exists>lir. LoadConstantNoClobber K r_dest val s
                  = Some (length (lir_list s), s\<lparr>lir_list := lir_list s @ [lir]\<rparr>)
           \<and> lir_opcode lir \<in> {kA64Mov2rr, kA64Mvn2rr, kA64Movn3rdM, kA64Movz3rdM}
           \<and> (Low16Bits val = High16Bits val \<longrightarrow>
                 lir = RawLIR (if Low16Bits val = 0 then kA64Mov2rr else kA64Mvn2rr)
                         [GetReg r_dest, rwzr K] None)))
     \<and> (\<not> (Low16Bits val = 0 \<or> Low16Bits val = 0xFFFF \<or> High16Bits val = 0 \<or> High16Bits val = 0xFFFF) \<longrightarrow>
        (\<exists>log_imm. EncodeLogicalImmediate False (scast val) = Some log_imm
           \<and> (0 \<le> log_imm \<longrightarrow>
                 LoadConstantNoClobber K r_dest val s
                   = Some (length (lir_list s),
                       s\<lparr>lir_list := lir_list s
                           @ [RawLIR kA64Orr3Rrl [GetReg r_dest, rwzr K, log_imm] None]\<rparr>))
           \<and> (log_imm < 0 \<longrightarrow>
                 LoadConstantNoClobber K r_dest val s
                   = Some (length (lir_list s),
                       s\<lparr>lir_list := lir_list s
                           @ [RawLIR kA64Movz3rdM [GetReg r_dest, uint (Low16Bits val), 0] None,
                              RawLIR kA64Movk3rdM [GetReg r_dest, uint (High16Bits val), 1] None]\<rparr>))))"
proof (intro conjI impI)
  assume fast: "Low16Bits val = 0 \<or> Low16Bits val = 0xFFFF \<or> High16Bits val = 0 \<or> High16Bits val = 0xFFFF"
  show "\<exists>lir. LoadConstantNoClobber K r_dest val s
                  = Some (length (lir_list s), s\<lparr>lir_list := lir_list s @ [lir]\<rparr>)
           \<and> lir_opcode lir \<in> {kA64Mov2rr, kA64Mvn2rr, kA64Movn3rdM, kA64Movz3rdM}
           \<and> (Low16Bits val = High16Bits val \<longrightarrow>
                 lir = RawLIR (if Low16Bits val = 0 then kA64Mov2rr else kA64Mvn2rr)
                         [GetReg r_dest, rwzr K] None)"
    using assms fast
    by (auto simp: LoadConstantNoClobber_def Let_def fast_iff NewLIR2_def NewLIR3_def
        AppendLIR_def RawLIR_def)
next
  assume slow: "\<not> (Low16Bits val = 0 \<or> Low16Bits val = 0xFFFF \<or> High16Bits val = 0 \<or> High16Bits val = 0xFFFF)"
  then obtain log_imm where e: "EncodeLogicalImmediate False (scast val) = Some log_imm"
    using EncodeLogicalImmediate_narrow_defined [of val] by auto
  show "\<exists>log_imm. EncodeLogicalImmediate False (scast val) = Some log_imm
           \<and> (0 \<le> log_imm \<longrightarrow>
                 LoadConstantNoClobber K r_dest val s
                   = Some (length (lir_list s),
                       s\<lparr>lir_list := lir_list s
                           @ [RawLIR kA64Orr3Rrl [GetReg r_dest, rwzr K, log_imm] None]\<rparr>))
           \<and> (log_imm < 0 \<longrightarrow>
                 LoadConstantNoClobber K r_dest val s
                   = Some (length (lir_list s),
                       s\<lparr>lir_list := lir_list s
                           @ [RawLIR kA64Movz3rdM [GetReg r_dest, uint (Low16Bits val), 0] None,
                              RawLIR kA64Movk3rdM [GetReg r_dest, uint (High16Bits val), 1] None]\<rparr>))"
    using assms slow e
    by (intro exI [of _ log_imm])
       (simp add: LoadConstantNoClobber_def Let_def fast_iff NewLIR2_def NewLIR3_def
         AppendLIR_def)
qed

theorem LoadConstantNoClobber_integer_witness:
  "LoadConstantNoClobber ex_consts ex_w3 0xFFFFFFFF ex_state
     = Some (0, ex_state\<lparr>lir_list := [RawLIR kA64Mvn2rr [3, 63] None]\<rparr>)
   \<and> LoadConstantNoClobber ex_consts ex_w3 0x00FF00FF ex_state
     = Some (0, ex_state\<lparr>lir_list := [RawLIR kA64Orr3Rrl [3, 63, 39] None]\<rparr>)
   \<and> LoadConstantNoClobber ex_consts ex_w3 0x12345678 ex_state
     = Some (0, ex_state\<lparr>lir_list := [RawLIR kA64Movz3rdM [3, 0x5678, 0] None,
                                          RawLIR kA64Movk3rdM [3, 0x1234, 1] None]\<rparr>)"
proof -
  have r: "\<not> IsFloat ex_w3" "GetReg ex_w3 \<noteq> rwsp ex_consts" "GetReg ex_w3 \<noteq> rwzr ex_consts"
    by (simp_all add: ex_w3_def ex_consts_def)
  note t = LoadConstantNoClobber_integer [OF r]
  have h1: "Low16Bits 0xFFFFFFFF = 0xFFFF" "High16Bits 0xFFFFFFFF = 0xFFFF"
    by (simp_all add: Low16Bits_def High16Bits_def)
  have h2: "Low16Bits 0x00FF00FF = 0xFF" "High16Bits 0x00FF00FF = 0xFF"
    by (simp_all add: Low16Bits_def High16Bits_def)
  have h3: "Low16Bits 0x12345678 = 0x5678" "High16Bits 0x12345678 = 0x1234"
    by (simp_all add: Low16Bits_def High16Bits_def)
  have e2: "EncodeLogicalImmediate False (scast (0x00FF00FF :: s32)) = Some 39" by code_simp
  have e3: "EncodeLogicalImmediate False (scast (0x12345678 :: s32)) = Some (- 1)" by code_simp
  have c1: "LoadConstantNoClobber ex_consts ex_w3 0xFFFFFFFF ex_state
     = Some (0, ex_state\<lparr>lir_list := [RawLIR kA64Mvn2rr [3, 63] None]\<rparr>)"
    using t [of "0xFFFFFFFF" ex_state] h1
    by (auto simp: ex_state_def ex_w3_def ex_consts_def)
  have c2: "LoadConstantNoClobber ex_consts ex_w3 0x00FF00FF ex_state
     = Some (0, ex_state\<lparr>lir_list := [RawLIR kA64Orr3Rrl [3, 63, 39] None]\<rparr>)"
    using t [of "0x00FF00FF" ex_state] h2 e2
    by (auto simp: ex_state_def ex_w3_def ex_consts_def)
  have c3: "LoadConstantNoClobber ex_consts ex_w3 0x12345678 ex_state
     = Some (0, ex_state\<lparr>lir_list := [RawLIR kA64Movz3rdM [3, 0x5678, 0] None,
                                          RawLIR kA64Movk3rdM [3, 0x1234, 1] None]\<rparr>)"
    using t [of "0x12345678" ex_state] h3 e3
    by (auto simp: ex_state_def ex_w3_def ex_consts_def)
  from c1 c2 c3 show ?thesis by blast
qed

text \<open>
  C8. For the floating-point constant 0, \<open>LoadFPConstantValue\<close> (single register)
  and \<open>LoadFPConstantValueWide\<close> (double register) emit exactly one instruction, a
  move from the integer zero register \<open>rwzr\<close>, and leave the rest of the state, the
  literal pool included, as it was: the result is this one record appended, whatever the
  pool holds and whatever the immediate encoders would answer.
\<close>

theorem LoadFPConstantValue_zero:
  "(RegIsSingle K r \<longrightarrow>
      LoadFPConstantValue K r 0 s
        = Some (length (lir_list s),
            s\<lparr>lir_list := lir_list s @ [RawLIR kA64Fmov2sw [r, rwzr K] None]\<rparr>))
   \<and> (RegIsDouble K r \<longrightarrow>
      LoadFPConstantValueWide K r 0 s
        = Some (length (lir_list s),
            s\<lparr>lir_list := lir_list s @ [RawLIR kA64Fmov2Sx [r, rwzr K] None]\<rparr>))"
  by (simp add: LoadFPConstantValue_def LoadFPConstantValueWide_def NewLIR2_def AppendLIR_def)

theorem LoadFPConstantValue_zero_witness:
  "LoadFPConstantValue ex_consts 70 0 (ex_state\<lparr>literal_list := [WordData 7]\<rparr>)
     = Some (0, ex_state\<lparr>literal_list := [WordData 7],
                          lir_list := [RawLIR kA64Fmov2sw [70, 63] None]\<rparr>)
   \<and> LoadFPConstantValueWide ex_consts 100 0 (ex_state\<lparr>literal_list := [WordData 7]\<rparr>)
     = Some (0, ex_state\<lparr>literal_list := [WordData 7],
                          lir_list := [RawLIR kA64Fmov2Sx [100, 63] None]\<rparr>)"
proof -
  have s: "RegIsSingle ex_consts 70" and d: "RegIsDouble ex_consts 100"
    by (simp_all add: ex_consts_def)
  from LoadFPConstantValue_zero [of ex_consts 70 "ex_state\<lparr>literal_list := [WordData 7]\<rparr>"] s
    LoadFPConstantValue_zero [of ex_consts 100 "ex_state\<lparr>literal_list := [WordData 7]\<rparr>"] d
  show ?thesis by (simp add: ex_state_def ex_consts_def)
qed

section \<open>Properties of addressing-mode selection\<close>




section \<open>Properties of the live intervals\<close>




text \<open>
  C3. Take an interval with no next sibling whose ranges are ordered (every range ends at
  or before the start of every later range), and a position \<open>p\<close> strictly greater than
  its start. If the last range ends at or before \<open>p\<close>, \<open>SplitAt(p)\<close> returns the
  "no split" result and leaves the interval as it is. Otherwise it returns a new sibling:
  the interval then covers exactly the positions below \<open>p\<close> that it covered before,
  and the sibling exactly those at or above \<open>p\<close>, whether \<open>p\<close> lies inside a range
  or in a hole.
\<close>

theorem SplitAt_partition:
  assumes "next_sibling iv = None" and "IntervalStart iv = Some start" and "start < p"
    and "ranges_ordered (ranges iv)"
  shows "(GetEnd (last (ranges iv)) \<le> p \<longrightarrow> SplitAt a p iv = Some (iv, None))
    \<and> (p < GetEnd (last (ranges iv)) \<longrightarrow>
         (\<exists>iv' sibling. SplitAt a p iv = Some (iv', Some sibling)
            \<and> next_sibling iv' = Some a \<and> next_sibling sibling = None
            \<and> (\<forall>q. Covers iv' q = (Covers iv q \<and> q < p))
            \<and> (\<forall>q. Covers sibling q = (Covers iv q \<and> p \<le> q))))"
proof (intro conjI impI)
  assume "GetEnd (last (ranges iv)) \<le> p"
  with assms(1-3) show "SplitAt a p iv = Some (iv, None)"
    by (simp add: SplitAt_def)
next
  assume live: "p < GetEnd (last (ranges iv))"
  from assms(2) have ne: "ranges iv \<noteq> []" and hd: "GetStart (hd (ranges iv)) = start"
    by (auto simp: IntervalStart_def split: list.splits)
  have "\<exists>mine others. split_ranges p [] (ranges iv) = Some (mine, others)
           \<and> (\<forall>q. covers_ranges q mine = (covers_ranges q ([] @ ranges iv) \<and> q < p))
           \<and> (\<forall>q. covers_ranges q others = (covers_ranges q ([] @ ranges iv) \<and> p \<le> q))"
    using assms(3,4) ne hd live by (intro split_ranges_partition) simp_all
  then obtain mine others where s: "split_ranges p [] (ranges iv) = Some (mine, others)"
    and m: "\<forall>q. covers_ranges q mine = (covers_ranges q (ranges iv) \<and> q < p)"
    and o: "\<forall>q. covers_ranges q others = (covers_ranges q (ranges iv) \<and> p \<le> q)"
    by auto
  from assms(1-3) live s
  have "SplitAt a p iv = Some (iv\<lparr>ranges := mine, next_sibling := Some a\<rparr>,
          Some ((NewLiveInterval (interval_type iv))\<lparr>first_use := first_use iv, ranges := others\<rparr>))"
    by (simp add: SplitAt_def)
  with m o show "\<exists>iv' sibling. SplitAt a p iv = Some (iv', Some sibling)
            \<and> next_sibling iv' = Some a \<and> next_sibling sibling = None
            \<and> (\<forall>q. Covers iv' q = (Covers iv q \<and> q < p))
            \<and> (\<forall>q. Covers sibling q = (Covers iv q \<and> p \<le> q))"
    by (simp add: Covers_def NewLiveInterval_def)
qed

theorem SplitAt_partition_witness:
  "next_sibling ex_interval = None \<and> IntervalStart ex_interval = Some 2
   \<and> ranges_ordered (ranges ex_interval)
   \<and> SplitAt 1 25 ex_interval = Some (ex_interval, None)
   \<and> SplitAt 1 14 ex_interval
       = Some (ex_interval\<lparr>ranges := [\<lparr>GetStart = 2, GetEnd = 6\<rparr>, \<lparr>GetStart = 10, GetEnd = 14\<rparr>],
                            next_sibling := Some 1\<rparr>,
               Some ((NewLiveInterval kPrimInt)\<lparr>ranges := [\<lparr>GetStart = 14, GetEnd = 20\<rparr>]\<rparr>))
   \<and> SplitAt 1 8 ex_interval
       = Some (ex_interval\<lparr>ranges := [\<lparr>GetStart = 2, GetEnd = 6\<rparr>], next_sibling := Some 1\<rparr>,
               Some ((NewLiveInterval kPrimInt)\<lparr>ranges := [\<lparr>GetStart = 10, GetEnd = 20\<rparr>]\<rparr>))
   \<and> (\<exists>iv' sibling. SplitAt 1 14 ex_interval = Some (iv', Some sibling)
         \<and> (\<forall>q. Covers iv' q = (Covers ex_interval q \<and> q < 14))
         \<and> (\<forall>q. Covers sibling q = (Covers ex_interval q \<and> 14 \<le> q)))"
proof -
  have h: "next_sibling ex_interval = None" "IntervalStart ex_interval = Some 2"
    "ranges_ordered (ranges ex_interval)"
    by (simp_all add: ex_interval_def NewLiveInterval_def IntervalStart_def ranges_ordered_def)
  have l: "GetEnd (last (ranges ex_interval)) = 20"
    by (simp add: ex_interval_def)
  have e1: "SplitAt 1 14 ex_interval
       = Some (ex_interval\<lparr>ranges := [\<lparr>GetStart = 2, GetEnd = 6\<rparr>, \<lparr>GetStart = 10, GetEnd = 14\<rparr>],
                            next_sibling := Some 1\<rparr>,
               Some ((NewLiveInterval kPrimInt)\<lparr>ranges := [\<lparr>GetStart = 14, GetEnd = 20\<rparr>]\<rparr>))"
    by code_simp
  have e2: "SplitAt 1 8 ex_interval
       = Some (ex_interval\<lparr>ranges := [\<lparr>GetStart = 2, GetEnd = 6\<rparr>], next_sibling := Some 1\<rparr>,
               Some ((NewLiveInterval kPrimInt)\<lparr>ranges := [\<lparr>GetStart = 10, GetEnd = 20\<rparr>]\<rparr>))"
    by code_simp
  have dead: "SplitAt 1 25 ex_interval = Some (ex_interval, None)"
    using SplitAt_partition [OF h(1,2) _ h(3), of 25 1] l by simp
  have live: "\<exists>iv' sibling. SplitAt 1 14 ex_interval = Some (iv', Some sibling)
         \<and> (\<forall>q. Covers iv' q = (Covers ex_interval q \<and> q < 14))
         \<and> (\<forall>q. Covers sibling q = (Covers ex_interval q \<and> 14 \<le> q))"
    using SplitAt_partition [OF h(1,2) _ h(3), of 14 1] l by auto
  from h dead e1 e2 live show ?thesis by blast
qed

text \<open>
  C5. Take two intervals with non-empty, ordered ranges, where this interval does not
  cover the start of the other and starts at or before it (the two checks of the code).
  Then \<open>FirstIntersectionWith\<close> returns, and it returns either a position \<open>q\<close> that
  both intervals cover and that is the least position covered by both, or the sentinel
  \<open>kNoLifetime\<close>, and then no range of this interval intersects a range of the other
  and no position is covered by both.
\<close>

theorem FirstIntersectionWith_first:
  assumes "ranges_nonempty (ranges this)" and "ranges_ordered (ranges this)"
    and "ranges_nonempty (ranges other)" and "ranges_ordered (ranges other)"
    and "IntervalStart this = Some my_start" and "IntervalStart other = Some other_start"
    and "\<not> Covers this other_start" and "my_start \<le> other_start"
  shows "(\<exists>q. FirstIntersectionWith this other = Some (Lifetime q)
            \<and> Covers this q \<and> Covers other q
            \<and> (\<forall>q'. Covers this q' \<and> Covers other q' \<longrightarrow> q \<le> q'))
       \<or> (FirstIntersectionWith this other = Some kNoLifetime
            \<and> (\<forall>a \<in> set (ranges this). \<forall>b \<in> set (ranges other). \<not> IntersectsWith a b)
            \<and> (\<forall>q. \<not> (Covers this q \<and> Covers other q)))"
proof -
  obtain pre where pre: "ranges this = pre @ skip_to_start other_start (ranges this)"
    and early: "\<forall>r \<in> set pre. GetStart r < other_start"
    using skip_to_start_split by blast
  define my where "my = skip_to_start other_start (ranges this)"
  from assms(6) obtain o' os where other: "ranges other = o' # os" and os: "GetStart o' = other_start"
    by (auto simp: IntervalStart_def split: list.splits)
  have lo: "\<forall>b \<in> set (ranges other). other_start \<le> GetStart b"
    using first_start_least [of o' os] assms(3,4) unfolding other os [symmetric] by blast
  have pre_ne: "\<forall>r \<in> set pre. GetStart r < GetEnd r"
    using assms(1) pre by (metis Un_iff ranges_nonempty_iff set_append)
  have "\<forall>r \<in> set pre. GetEnd r \<le> other_start"
  proof
    fix r assume r: "r \<in> set pre"
    then have "r \<in> set (ranges this)" using pre by (metis Un_iff set_append)
    with assms(7) have "\<not> (GetStart r \<le> other_start \<and> other_start < GetEnd r)"
      by (auto simp: Covers_def covers_ranges_iff)
    with early r show "GetEnd r \<le> other_start" by force
  qed
  with lo pre_ne have "\<forall>r \<in> set pre. no_common [r] (ranges other)"
    by (auto intro: before_no_common)
  then have nc: "no_common pre (ranges other)"
    by (auto simp: no_common_def covers_ranges_iff)
  have run: "FirstIntersectionWith this other
      = (case my of [] \<Rightarrow> Some kNoLifetime | m # ms \<Rightarrow> sweep my (ranges other))"
    using assms(5-8) by (simp add: FirstIntersectionWith_def my_def split: list.splits)
  have wf: "ranges_nonempty my" "ranges_ordered my"
    using assms(1,2) pre unfolding my_def [symmetric]
    by (auto simp: ranges_nonempty_iff ranges_ordered_def sorted_wrt_append)
  have split: "ranges this = pre @ my" using pre by (simp add: my_def)
  have "(\<exists>q. FirstIntersectionWith this other = Some (Lifetime q)
            \<and> first_common (ranges this) (ranges other) q)
       \<or> (FirstIntersectionWith this other = Some kNoLifetime
            \<and> no_common (ranges this) (ranges other))"
  proof (cases my)
    case Nil
    with run split nc show ?thesis by simp
  next
    case (Cons m ms)
    then have "my \<noteq> []" by simp
    with wf assms(3,4) other
    have "(\<exists>q. sweep my (ranges other) = Some (Lifetime q) \<and> first_common my (ranges other) q)
         \<or> (sweep my (ranges other) = Some kNoLifetime \<and> no_common my (ranges other))"
      by (intro sweep_correct) simp_all
    with run Cons nc show ?thesis
      unfolding split by (simp add: first_common_append_left no_common_append_left)
  qed
  then show ?thesis
    by (simp add: first_common_def no_common_def Covers_def)
qed

theorem FirstIntersectionWith_first_witness:
  "IntervalStart ex_interval = Some 2 \<and> IntervalStart ex_meeting = Some 7
   \<and> \<not> Covers ex_interval 7
   \<and> FirstIntersectionWith ex_interval ex_meeting = Some (Lifetime 10)
   \<and> Covers ex_interval 10 \<and> Covers ex_meeting 10
   \<and> (\<forall>q'. \<not> (Covers ex_interval q' \<and> Covers ex_meeting q' \<and> q' < 10))
   \<and> IntervalStart ex_touching = Some 6 \<and> \<not> Covers ex_interval 6
   \<and> FirstIntersectionWith ex_interval ex_touching = Some kNoLifetime
   \<and> (\<forall>q. \<not> (Covers ex_interval q \<and> Covers ex_touching q))"
proof -
  have wf: "ranges_nonempty (ranges ex_interval)" "ranges_ordered (ranges ex_interval)"
    "ranges_nonempty (ranges ex_meeting)" "ranges_ordered (ranges ex_meeting)"
    "ranges_nonempty (ranges ex_touching)" "ranges_ordered (ranges ex_touching)"
    by (simp_all add: ex_interval_def ex_meeting_def ex_touching_def ranges_nonempty_def
        ranges_ordered_def)
  have st: "IntervalStart ex_interval = Some 2" "IntervalStart ex_meeting = Some 7"
    "IntervalStart ex_touching = Some 6"
    by (simp_all add: ex_interval_def ex_meeting_def ex_touching_def IntervalStart_def)
  have nc: "\<not> Covers ex_interval 7" "\<not> Covers ex_interval 6"
    by (simp_all add: ex_interval_def Covers_def)
  have e1: "FirstIntersectionWith ex_interval ex_meeting = Some (Lifetime 10)"
    by code_simp
  have e2: "FirstIntersectionWith ex_interval ex_touching = Some kNoLifetime"
    by code_simp
  have "Covers ex_interval 10 \<and> Covers ex_meeting 10
     \<and> (\<forall>q'. \<not> (Covers ex_interval q' \<and> Covers ex_meeting q' \<and> q' < 10))"
    using FirstIntersectionWith_first [OF wf(1,2,3,4) st(1,2) nc(1)] e1 by fastforce
  moreover have "\<forall>q. \<not> (Covers ex_interval q \<and> Covers ex_touching q)"
    using FirstIntersectionWith_first [OF wf(1,2,5,6) st(1,3) nc(2)] e2 by simp
  ultimately show ?thesis using st nc e1 e2 by blast
qed

section \<open>Properties of the graph builder\<close>

text \<open>
  C4. \<open>BuildGraph\<close> returns \<open>nullptr\<close>, and nothing else, in each of these cases:
  the code item has exception handlers (\<open>tries_size_ > 0\<close>); the method has a
  compilation unit and one of its declared parameters has the shorty character \<open>F\<close>,
  \<open>D\<close> or \<open>J\<close>, given code that is well formed and a code item whose argument
  registers reach that parameter and fit into its registers; translation meets, with a
  current block, an instruction whose opcode has no case in \<open>AnalyzeDexInstruction\<close>.
\<close>

theorem BuildGraph_unsupported:
  "(0 < tries_size code_item \<longrightarrow> BuildGraph code_item b = Some None)
   \<and> (tries_size code_item = 0 \<and> well_formed_code (insns code_item)
        \<and> dex_compilation_unit b = Some unit
        \<and> k < length (tl (GetShorty unit)) \<and> wide_or_float (tl (GetShorty unit) ! k)
        \<and> (if IsStatic unit then k else k + 1) < ins_size code_item
        \<and> ins_size code_item \<le> registers_size code_item
       \<longrightarrow> BuildGraph code_item b = Some None)
   \<and> (tries_size code_item = 0 \<and> reaches_no_rule code_item b n
       \<longrightarrow> BuildGraph code_item b = Some None)"
proof (intro conjI impI)
  assume "0 < tries_size code_item"
  then show "BuildGraph code_item b = Some None"
    by (simp add: BuildGraph_def CanHandleCodeItem_def)
next
  assume a: "tries_size code_item = 0 \<and> well_formed_code (insns code_item)
        \<and> dex_compilation_unit b = Some unit
        \<and> k < length (tl (GetShorty unit)) \<and> wide_or_float (tl (GetShorty unit) ! k)
        \<and> (if IsStatic unit then k else k + 1) < ins_size code_item
        \<and> ins_size code_item \<le> registers_size code_item"
  then have wf: "well_formed_code (insns code_item)" by blast
  from graph_setup_defined [OF wf, of b] obtain b0 e where
    s: "graph_setup code_item b = Some b0" and e: "entry_block b0 = Some e" "e < length (block_arena b0)"
    and u: "dex_compilation_unit b0 = dex_compilation_unit b"
    and l: "length (locals b0) = registers_size code_item"
    by blast
  have "\<exists>b'. InitializeParameters (ins_size code_item) b0 = Some (False, b')"
  proof (rule InitializeParameters_bails [of b0 unit k])
    show "dex_compilation_unit b0 = Some unit" using a u by simp
    show "k < length (tl (GetShorty unit))" using a by blast
    show "wide_or_float (tl (GetShorty unit) ! k)" using a by blast
    show "(if IsStatic unit then k else k + 1) < ins_size code_item" using a by blast
    show "ins_size code_item \<le> length (locals b0)" using a l by simp
    show "entry_block b0 = Some e" by (rule e(1))
    show "e < length (block_arena b0)" by (rule e(2))
  qed
  then obtain b' where "InitializeParameters (ins_size code_item) b0 = Some (False, b')" by blast
  with a s show "BuildGraph code_item b = Some None"
    by (simp add: BuildGraph_def CanHandleCodeItem_def)
next
  assume a: "tries_size code_item = 0 \<and> reaches_no_rule code_item b n"
  let ?pre = "take n (insns code_item)"
  from a have r: "reaches_no_rule code_item b n" by blast
  from r have n: "n < length (insns code_item)" by (simp add: reaches_no_rule_def)
  from r obtain c where o: "Opcode (insns code_item ! n) = OTHER c"
    by (cases "Opcode (insns code_item ! n)") (simp_all add: reaches_no_rule_def)
  from r obtain b0 where s: "graph_setup code_item b = Some b0"
    by (cases "graph_setup code_item b") (simp_all add: reaches_no_rule_def)
  from r s obtain ok b1 where p': "InitializeParameters (ins_size code_item) b0 = Some (ok, b1)"
    by (cases "InitializeParameters (ins_size code_item) b0") (auto simp: reaches_no_rule_def)
  from r s p' have ok and r': "(case build_loop 0 ?pre b1 of
                     Some (Some b) \<Rightarrow>
                       (case MaybeUpdateCurrentBlock (int (code_units ?pre)) b of
                          None \<Rightarrow> False
                        | Some b \<Rightarrow> current_block b \<noteq> None)
                   | _ \<Rightarrow> False)"
    by (simp_all add: reaches_no_rule_def)
  from p' \<open>ok\<close> have p: "InitializeParameters (ins_size code_item) b0 = Some (True, b1)" by simp
  from r' obtain b2 where w: "build_loop 0 ?pre b1 = Some (Some b2)"
    by (cases "build_loop 0 ?pre b1"; cases "the (build_loop 0 ?pre b1)") simp_all
  from r' w obtain b3 where m: "MaybeUpdateCurrentBlock (int (code_units ?pre)) b2 = Some b3"
    and cur: "current_block b3 \<noteq> None"
    by (cases "MaybeUpdateCurrentBlock (int (code_units ?pre)) b2") simp_all
  from n have "insns code_item = ?pre @ (insns code_item ! n) # drop (Suc n) (insns code_item)"
    by (simp add: id_take_nth_drop)
  then have "build_loop 0 (insns code_item) b1
      = build_loop 0 (?pre @ (insns code_item ! n) # drop (Suc n) (insns code_item)) b1"
    by simp
  also have "\<dots> = build_loop (int (code_units ?pre))
      ((insns code_item ! n) # drop (Suc n) (insns code_item)) b2"
    by (simp only: build_loop_append w option.case) simp
  also have "\<dots> = Some None"
    using m cur o by (rule build_loop_no_rule)
  finally have "build_loop 0 (insns code_item) b1 = Some None" .
  with a s p show "BuildGraph code_item b = Some None"
    by (simp add: BuildGraph_def CanHandleCodeItem_def)
qed

theorem BuildGraph_unsupported_witness:
  "BuildGraph (ex_code_item 1 [ex_instruction RETURN_VOID]) (ex_builder None) = Some None
   \<and> graph_of (BuildGraph (ex_code_item 0 [ex_instruction RETURN_VOID]) (ex_builder None))
       = Some (Some (graph ex_graph, block_arena ex_graph))
   \<and> well_formed_code [ex_instruction RETURN_VOID] \<and> wide_or_float (tl ''VIJ'' ! 1)
   \<and> BuildGraph (ex_code_item 0 [ex_instruction RETURN_VOID]) (ex_builder (Some ex_unit))
       = Some None
   \<and> reaches_no_rule (ex_code_item 0 [ex_instruction CONST_4, ex_instruction (OTHER 255)])
       (ex_builder None) 1
   \<and> BuildGraph (ex_code_item 0 [ex_instruction CONST_4, ex_instruction (OTHER 255)])
       (ex_builder None) = Some None"
proof -
  have wf: "well_formed_code [ex_instruction RETURN_VOID]"
    by (simp add: well_formed_code_def ex_instruction_def)
  have wide: "wide_or_float (tl ''VIJ'' ! 1)"
    by (simp add: wide_or_float_def)
  have reach: "reaches_no_rule (ex_code_item 0 [ex_instruction CONST_4, ex_instruction (OTHER 255)])
       (ex_builder None) 1"
    by code_simp
  have ok: "graph_of (BuildGraph (ex_code_item 0 [ex_instruction RETURN_VOID]) (ex_builder None))
       = Some (Some (graph ex_graph, block_arena ex_graph))"
    by code_simp
  have t1: "BuildGraph (ex_code_item 1 [ex_instruction RETURN_VOID]) (ex_builder None) = Some None"
    using BuildGraph_unsupported
      [of "ex_code_item 1 [ex_instruction RETURN_VOID]" "ex_builder None"]
    by (simp add: ex_code_item_def)
  have t2: "BuildGraph (ex_code_item 0 [ex_instruction RETURN_VOID]) (ex_builder (Some ex_unit))
       = Some None"
    using BuildGraph_unsupported
      [of "ex_code_item 0 [ex_instruction RETURN_VOID]" "ex_builder (Some ex_unit)" ex_unit 1]
      wf wide
    by (simp add: ex_code_item_def ex_builder_def ex_unit_def)
  have t3: "BuildGraph (ex_code_item 0 [ex_instruction CONST_4, ex_instruction (OTHER 255)])
       (ex_builder None) = Some None"
    using BuildGraph_unsupported
      [of "ex_code_item 0 [ex_instruction CONST_4, ex_instruction (OTHER 255)]" "ex_builder None"
        _ _ 1]
      reach
    by (simp add: ex_code_item_def)
  from t1 ok wf wide t2 reach t3 show ?thesis by blast
qed

text \<open>
  C10. When there is no current block, \<open>AnalyzeDexInstruction\<close> returns \<open>true\<close>
  and leaves the builder as it is, whatever the opcode. A stretch of instructions at whose
  addresses no block starts, entered with no current block, is skipped by the loop of
  \<open>BuildGraph\<close> without any effect: the loop continues behind it with the same
  builder, whatever the opcodes of the stretch are.
\<close>

theorem AnalyzeDexInstruction_dead_code:
  "(current_block b = None \<longrightarrow> AnalyzeDexInstruction instruction dex_offset b = Some (True, b))
   \<and> (current_block b = None \<and> no_block_starts dex_offset dead b
       \<longrightarrow> build_loop dex_offset (dead @ rest) b
           = build_loop (dex_offset + int (code_units dead)) rest b)"
  using build_loop_dead [of b dex_offset dead rest]
  by (simp add: AnalyzeDexInstruction_def)

theorem AnalyzeDexInstruction_dead_code_witness:
  "current_block ex_after_return = None
   \<and> no_block_starts 1 [ex_instruction (OTHER 255)] ex_after_return
   \<and> AnalyzeDexInstruction (ex_instruction (OTHER 255)) 1 ex_after_return
       = Some (True, ex_after_return)
   \<and> build_loop 1 [ex_instruction (OTHER 255)] ex_after_return = Some (Some ex_after_return)
   \<and> graph_of (build_loop 0 [ex_instruction RETURN_VOID, ex_instruction (OTHER 255)]
       (ex_after_return\<lparr>block_arena := (block_arena ex_after_return)[2 := \<lparr>instructions = [], successors = []\<rparr>],
                         graph := (graph ex_after_return)\<lparr>blocks := [0]\<rparr>\<rparr>))
       = Some (Some (graph ex_after_return, block_arena ex_after_return))
   \<and> graph_of (BuildGraph (ex_code_item 0 [ex_instruction RETURN_VOID, ex_instruction (OTHER 255)])
       (ex_builder None)) = Some (Some (graph ex_graph, block_arena ex_graph))"
proof -
  have c: "current_block ex_after_return = None"
    by (simp add: ex_after_return_def)
  have n: "no_block_starts 1 [ex_instruction (OTHER 255)] ex_after_return"
    by (simp add: ex_after_return_def FindBlockStartingAt_def ex_instruction_def)
  have a: "AnalyzeDexInstruction (ex_instruction (OTHER 255)) 1 ex_after_return
       = Some (True, ex_after_return)"
    using AnalyzeDexInstruction_dead_code [of ex_after_return] c by simp
  have l: "build_loop 1 [ex_instruction (OTHER 255)] ex_after_return = Some (Some ex_after_return)"
    using AnalyzeDexInstruction_dead_code [of ex_after_return _ 1 "[ex_instruction (OTHER 255)]" "[]"]
      c n
    by simp
  have w: "graph_of (build_loop 0 [ex_instruction RETURN_VOID, ex_instruction (OTHER 255)]
       (ex_after_return\<lparr>block_arena := (block_arena ex_after_return)[2 := \<lparr>instructions = [], successors = []\<rparr>],
                         graph := (graph ex_after_return)\<lparr>blocks := [0]\<rparr>\<rparr>))
       = Some (Some (graph ex_after_return, block_arena ex_after_return))"
    by code_simp
  have g: "graph_of (BuildGraph (ex_code_item 0 [ex_instruction RETURN_VOID, ex_instruction (OTHER 255)])
       (ex_builder None)) = Some (Some (graph ex_graph, block_arena ex_graph))"
    by code_simp
  from c n a l w g show ?thesis by blast
qed

end
